theory Spec2Isabelle
  imports Main "HOL-Library.AList" "HOL-Library.Sublist" "HOL-Library.Multiset"
begin

section \<open>Python values\<close>

text \<open>
  The programs work on parsed JSON. A key the code reads with \<^verbatim>\<open>d.get(k)\<close> is an
  option (\<open>None\<close> is Python's \<^verbatim>\<open>None\<close>: the key is absent or its value is null). A
  key read with \<^verbatim>\<open>d.get(k, default)\<close> distinguishes the absent key (the default is
  returned) from a null value (\<^verbatim>\<open>None\<close> is returned), so it is a \<open>field\<close>. Strings are
  ASCII strings, on which \<^verbatim>\<open>len\<close> counts characters and \<^verbatim>\<open>lower\<close> maps A-Z to a-z.
  A dict is an association list in insertion order, updated with \<open>AList.update\<close>
  (an existing key keeps its place, a new key goes to the end), read with \<open>map_of\<close>.
\<close>

datatype 'a field = Absent | Null | Val 'a

fun get_default :: "'a field \<Rightarrow> 'a option \<Rightarrow> 'a option" where
  "get_default Absent d = d"
| "get_default Null d = None"
| "get_default (Val v) d = Some v"

fun truthy_str :: "string option \<Rightarrow> bool" where
  "truthy_str None = False"
| "truthy_str (Some s) = (s \<noteq> [])"

fun truthy_int :: "int option \<Rightarrow> bool" where
  "truthy_int None = False"
| "truthy_int (Some n) = (n \<noteq> 0)"

fun truthy_bool :: "bool option \<Rightarrow> bool" where
  "truthy_bool None = False"
| "truthy_bool (Some b) = b"

definition lower_char :: "char \<Rightarrow> char" where
  "lower_char c =
     (case map_of (zip ''ABCDEFGHIJKLMNOPQRSTUVWXYZ'' ''abcdefghijklmnopqrstuvwxyz'') c of
        None \<Rightarrow> c
      | Some l \<Rightarrow> l)"

definition lower :: "string \<Rightarrow> string" where
  "lower s = map lower_char s"

text \<open>\<^verbatim>\<open>sub in s\<close> on strings: \<open>sub\<close> occurs in \<open>s\<close> as a contiguous run.\<close>

fun contains :: "string \<Rightarrow> string \<Rightarrow> bool" where
  "contains sub [] = (sub = [])"
| "contains sub (c # cs) = (prefix sub (c # cs) \<or> contains sub cs)"

text \<open>The exception \<^verbatim>\<open>None.lower()\<close> raises.\<close>

datatype py_error = AttributeError

section \<open>The database (bowie\_metadata.json)\<close>

text \<open>
  The records are the dicts \<^verbatim>\<open>get_all_recordings\<close> writes: every key is present, and
  \<open>None\<close> is a JSON null. On such a record \<^verbatim>\<open>d.get(k)\<close>, \<^verbatim>\<open>d.get(k, default)\<close> and
  \<^verbatim>\<open>d[k]\<close> all read the field.
\<close>

record track_entry =
  te_id :: "string option"
  te_title :: "string option"
  te_duration_ms :: "int option"

record rg_record =
  rg_title :: "string option"
  rg_type :: "string option"
  rg_track_count :: int
  rg_image_url :: "string option"
  rg_tracks :: "track_entry list"

type_synonym db = "(string \<times> rg_record) list"

section \<open>fetch\_bowie\_data.py: the Fetcher\<close>

text \<open>
  One attempt of \<^verbatim>\<open>fetch_json\<close> ends in one of two ways: \<^verbatim>\<open>session.get\<close> returns a
  response, with a status code and a body on which \<^verbatim>\<open>resp.json()\<close> either yields a value
  or raises; or \<^verbatim>\<open>session.get\<close> itself raises (timeout, connection error). The network
  is the function giving the outcome of the attempt with a given index. Sleeps are
  counted in tenths of a second.
\<close>

datatype 'a parse = Unparsable | Parsed 'a

datatype 'a outcome = Response nat "'a parse" | Raised

record 'a fetched =
  result :: "'a option"
  attempts :: nat
  slept :: nat

fun fetch_loop :: "(nat \<Rightarrow> 'a outcome) \<Rightarrow> nat list \<Rightarrow> nat \<Rightarrow> nat \<Rightarrow> 'a fetched" where
  "fetch_loop net [] made sl = \<lparr>result = None, attempts = made, slept = sl\<rparr>"
| "fetch_loop net (attempt # rest) made sl =
     (case net attempt of
        Response status_code body \<Rightarrow>
          if status_code = 200 then
            (case body of
               Parsed v \<Rightarrow> \<lparr>result = Some v, attempts = made + 1, slept = sl + 11\<rparr>
             | Unparsable \<Rightarrow> fetch_loop net rest (made + 1) (sl + 11 + 30 * (attempt + 1)))
          else if status_code = 503 then fetch_loop net rest (made + 1) (sl + 11 + 150)
          else fetch_loop net rest (made + 1) (sl + 11 + 50)
      | Raised \<Rightarrow> fetch_loop net rest (made + 1) (sl + 11 + 30 * (attempt + 1)))"

definition fetch_json :: "(nat \<Rightarrow> 'a outcome) \<Rightarrow> 'a fetched" where
  "fetch_json net = fetch_loop net [0..<5] 0 0"

section \<open>fetch\_bowie\_data.py: the catalog API's payloads\<close>

text \<open>
  A key holding an object or a list (\<^verbatim>\<open>release-group\<close>, \<^verbatim>\<open>cover-art-archive\<close>,
  \<^verbatim>\<open>media\<close>, \<^verbatim>\<open>tracks\<close>, \<^verbatim>\<open>recording\<close>) is read with \<^verbatim>\<open>.get(k, {})\<close> or
  \<^verbatim>\<open>.get(k, [])\<close>: \<open>None\<close> is the absent key (the catalog API sends no null there,
  on which the code would raise). \<^verbatim>\<open>rel["id"]\<close> and \<^verbatim>\<open>rel["title"]\<close> are keys every
  release has; a title can be null.
\<close>

record recording =
  rc_id :: "string option"
  rc_title :: "string option"
  rc_length :: "int option"

record api_track =
  trk_title :: "string field"
  trk_length :: "int option"
  trk_recording :: "recording option"

record medium =
  med_tracks :: "api_track list option"

text \<open>
  The body of a release-detail response. An object is falsy in Python when it has no key
  at all, which \<^verbatim>\<open>if not details\<close> tests.
\<close>

record details =
  det_media :: "medium list option"
  det_has_other_keys :: bool

record release_group =
  rgp_id :: "string option"
  rgp_title :: "string field"
  rgp_primary_type :: "string option"

record cover_art_archive =
  caa_front :: "bool option"

record release =
  rel_id :: string
  rel_title :: "string option"
  rel_release_group :: "release_group option"
  rel_cover_art_archive :: "cover_art_archive option"

definition get_release_group :: "release \<Rightarrow> release_group" where
  "get_release_group rel =
     (case rel_release_group rel of
        None \<Rightarrow> \<lparr>rgp_id = None, rgp_title = Absent, rgp_primary_type = None\<rparr>
      | Some rg \<Rightarrow> rg)"

definition get_front :: "release \<Rightarrow> bool option" where
  "get_front rel =
     (case rel_cover_art_archive rel of None \<Rightarrow> None | Some caa \<Rightarrow> caa_front caa)"

definition get_recording :: "api_track \<Rightarrow> recording" where
  "get_recording track =
     (case trk_recording track of
        None \<Rightarrow> \<lparr>rc_id = None, rc_title = None, rc_length = None\<rparr>
      | Some r \<Rightarrow> r)"

definition get_media :: "details \<Rightarrow> medium list" where
  "get_media d = (case det_media d of None \<Rightarrow> [] | Some ms \<Rightarrow> ms)"

definition get_tracks :: "medium \<Rightarrow> api_track list" where
  "get_tracks m = (case med_tracks m of None \<Rightarrow> [] | Some ts \<Rightarrow> ts)"

fun truthy_details :: "details option \<Rightarrow> bool" where
  "truthy_details None = False"
| "truthy_details (Some d) = (det_media d \<noteq> None \<or> det_has_other_keys d)"

section \<open>fetch\_bowie\_data.py: the Merge/Dedup Engine\<close>

text \<open>\<^verbatim>\<open>a or b\<close> where \<open>a\<close> is an integer or \<^verbatim>\<open>None\<close>.\<close>

definition or_int :: "int option \<Rightarrow> int \<Rightarrow> int" where
  "or_int a b = (case a of None \<Rightarrow> b | Some n \<Rightarrow> if n \<noteq> 0 then n else b)"

text \<open>\<^verbatim>\<open>track.get("length") or rec.get("length") or 0\<close>\<close>

definition duration_of :: "api_track \<Rightarrow> int" where
  "duration_of track =
     or_int (trk_length track) (or_int (rc_length (get_recording track)) 0)"

definition new_entry :: "api_track \<Rightarrow> track_entry" where
  "new_entry track =
     \<lparr>te_id = rc_id (get_recording track),
      te_title = get_default (trk_title track) (rc_title (get_recording track)),
      te_duration_ms = Some (duration_of track)\<rparr>"

text \<open>
  The state of the two nested loops over the media and their tracks: the group's track
  list, \<^verbatim>\<open>existing_track_ids\<close> and \<^verbatim>\<open>current_rel_track_count\<close>.
\<close>

type_synonym merge_state = "track_entry list \<times> string option set \<times> int"

fun merge_tracks :: "api_track list \<Rightarrow> merge_state \<Rightarrow> merge_state" where
  "merge_tracks [] st = st"
| "merge_tracks (track # rest) (tracks, existing_track_ids, n) =
     (let r = rc_id (get_recording track)
      in if truthy_str r \<and> r \<notin> existing_track_ids
         then merge_tracks rest (tracks @ [new_entry track], insert r existing_track_ids, n + 1)
         else merge_tracks rest (tracks, existing_track_ids, n + 1))"

fun merge_media :: "medium list \<Rightarrow> merge_state \<Rightarrow> merge_state" where
  "merge_media [] st = st"
| "merge_media (m # ms) st = merge_media ms (merge_tracks (get_tracks m) st)"

definition new_record :: "release \<Rightarrow> rg_record" where
  "new_record rel =
     \<lparr>rg_title = get_default (rgp_title (get_release_group rel)) (rel_title rel),
      rg_type = rgp_primary_type (get_release_group rel),
      rg_track_count = 0,
      rg_image_url = None,
      rg_tracks = []\<rparr>"

definition image_url_of :: "string \<Rightarrow> string" where
  "image_url_of release_id = ''https://coverartarchive.org/release/'' @ release_id @ ''/front-250''"

text \<open>Lines 94 to 101: the record of the group, created when the group is new.\<close>

definition get_or_create :: "rg_record option \<Rightarrow> release \<Rightarrow> rg_record" where
  "get_or_create old rel = (case old of None \<Rightarrow> new_record rel | Some r \<Rightarrow> r)"

text \<open>Lines 104 and 105.\<close>

definition set_image :: "rg_record \<Rightarrow> release \<Rightarrow> rg_record" where
  "set_image r rel =
     (if \<not> truthy_str (rg_image_url r) \<and> truthy_bool (get_front rel)
      then r\<lparr>rg_image_url := Some (image_url_of (rel_id rel))\<rparr>
      else r)"

text \<open>
  Lines 94 to 123 on one record: \<open>old\<close> is \<^verbatim>\<open>final_db.get(rg_id)\<close>, the result is
  \<^verbatim>\<open>final_db[rg_id]\<close> afterwards.
\<close>

definition fold_record :: "rg_record option \<Rightarrow> release \<Rightarrow> details \<Rightarrow> rg_record" where
  "fold_record old rel d =
     (let r1 = set_image (get_or_create old rel) rel
      in case merge_media (get_media d) (rg_tracks r1, set (map te_id (rg_tracks r1)), 0) of
           (tracks, existing_track_ids, current_rel_track_count) \<Rightarrow>
             r1\<lparr>rg_tracks := tracks,
                rg_track_count := max (rg_track_count r1) current_rel_track_count\<rparr>)"

definition merge_release :: "db \<Rightarrow> string \<Rightarrow> release \<Rightarrow> details \<Rightarrow> db" where
  "merge_release database rg_id rel d =
     AList.update rg_id (fold_record (map_of database rg_id) rel d) database"

section \<open>fetch\_bowie\_data.py: the detail phase\<close>

text \<open>
  Each discovered release comes with what \<^verbatim>\<open>fetch_json\<close> returns for its detail URL
  when the loop asks for it. The state holds the variables of the loop, the list of
  detail fetches made and the list of periodic checkpoints written (the database and
  the processed set each one dumps).
\<close>

record crawl_state =
  final_db :: db
  processed_rel_ids :: "string set"
  processed_this_run :: nat
  fetch_calls :: "string list"
  checkpoints :: "(db \<times> string set) list"

definition checkpoint :: "crawl_state \<Rightarrow> crawl_state" where
  "checkpoint s = s\<lparr>checkpoints := checkpoints s @ [(final_db s, processed_rel_ids s)]\<rparr>"

definition detail_step :: "release \<times> details option \<Rightarrow> crawl_state \<Rightarrow> crawl_state" where
  "detail_step x s =
     (case x of (rel, fetched_details) \<Rightarrow>
        if rel_id rel \<in> processed_rel_ids s then s
        else
          case rgp_id (get_release_group rel) of
            None \<Rightarrow> s
          | Some rg_id \<Rightarrow>
              if rg_id = [] then s
              else
                let s1 = s\<lparr>processed_this_run := processed_this_run s + 1,
                           fetch_calls := fetch_calls s @ [rel_id rel]\<rparr>
                in case fetched_details of
                     None \<Rightarrow> s1
                   | Some d \<Rightarrow>
                       if \<not> truthy_details (Some d) then s1
                       else
                         let s2 = s1\<lparr>final_db := merge_release (final_db s1) rg_id rel d,
                                      processed_rel_ids :=
                                        insert (rel_id rel) (processed_rel_ids s1)\<rparr>
                         in if processed_this_run s2 mod 10 = 0 then checkpoint s2 else s2)"

definition detail_phase :: "(release \<times> details option) list \<Rightarrow> crawl_state \<Rightarrow> crawl_state" where
  "detail_phase all_releases s = fold detail_step all_releases s"

definition start_state :: "db \<Rightarrow> string set \<Rightarrow> crawl_state" where
  "start_state loaded_db loaded_ids =
     \<lparr>final_db = loaded_db, processed_rel_ids = loaded_ids, processed_this_run = 0,
      fetch_calls = [], checkpoints = []\<rparr>"

text \<open>
  \<^verbatim>\<open>get_all_recordings\<close> after discovery: the detail phase, then the write at the end
  (lines 134 to 137), which dumps the database and the processed set whatever happened.
\<close>

definition get_all_recordings ::
  "db \<Rightarrow> string set \<Rightarrow> (release \<times> details option) list \<Rightarrow> crawl_state \<times> (db \<times> string set)" where
  "get_all_recordings loaded_db loaded_ids all_releases =
     (let s = detail_phase all_releases (start_state loaded_db loaded_ids)
      in (s, (final_db s, processed_rel_ids s)))"

section \<open>fetch\_bowie\_data.py: writing the files\<close>

text \<open>
  The file system maps a path to the text stored under it. \<^verbatim>\<open>open(p, "w")\<close> creates
  or truncates the file, \<^verbatim>\<open>json.dump\<close> appends the serialisation piece by piece,
  \<^verbatim>\<open>os.replace\<close> moves a file over another in one step. A crash stops a sequence of
  operations after some of them.
\<close>

type_synonym filesystem = "string \<Rightarrow> string option"

datatype fs_op = Open_w string | Write_piece string string | Replace string string

fun apply_op :: "fs_op \<Rightarrow> filesystem \<Rightarrow> filesystem" where
  "apply_op (Open_w p) fs = fs(p \<mapsto> [])"
| "apply_op (Write_piece p piece) fs =
     (case fs p of None \<Rightarrow> fs | Some text \<Rightarrow> fs(p \<mapsto> text @ piece))"
| "apply_op (Replace src dst) fs =
     (case fs src of None \<Rightarrow> fs | Some text \<Rightarrow> (fs(dst \<mapsto> text))(src := None))"

definition OUTPUT_FILE :: string where
  "OUTPUT_FILE = ''bowie_metadata.json''"

definition PROGRESS_FILE :: string where
  "PROGRESS_FILE = ''.processed_releases.json''"

text \<open>\<^verbatim>\<open>with open(p, "w") as f: json.dump(obj, f)\<close>, the pieces being those of \<^verbatim>\<open>obj\<close>.\<close>

definition dump_ops :: "string \<Rightarrow> string list \<Rightarrow> fs_op list" where
  "dump_ops p pieces = Open_w p # map (Write_piece p) pieces"

text \<open>Lines 128 to 132.\<close>

definition periodic_checkpoint_ops :: "string list \<Rightarrow> string list \<Rightarrow> fs_op list" where
  "periodic_checkpoint_ops db_pieces ids_pieces =
     dump_ops (OUTPUT_FILE @ ''.tmp'') db_pieces
     @ [Replace (OUTPUT_FILE @ ''.tmp'') OUTPUT_FILE]
     @ dump_ops PROGRESS_FILE ids_pieces"

text \<open>Lines 134 to 137.\<close>

definition final_write_ops :: "string list \<Rightarrow> string list \<Rightarrow> fs_op list" where
  "final_write_ops db_pieces ids_pieces =
     dump_ops OUTPUT_FILE db_pieces @ dump_ops PROGRESS_FILE ids_pieces"

definition crash_after :: "nat \<Rightarrow> fs_op list \<Rightarrow> filesystem \<Rightarrow> filesystem" where
  "crash_after k ops fs = fold apply_op (take k ops) fs"

section \<open>generate\_lookup.py\<close>

definition CANONICAL_ALBUMS :: "string list" where
  "CANONICAL_ALBUMS =
    [''david bowie'', ''space oddity'', ''the man who sold the world'', ''hunky dory'',
     ''the rise and fall of ziggy stardust and the spiders from mars'', ''aladdin sane'',
     ''pin ups'', ''diamond dogs'', ''young americans'', ''station to station'', ''low'',
     [CHR 0x22] @ ''heroes'' @ [CHR 0x22], ''lodger'', ''scary monsters (and super creeps)'',
     ''let'' @ [CHR 0x27] @ ''s dance'',
     ''tonight'', ''never let me down'', ''black tie white noise'', ''the buddha of suburbia'',
     ''outside'', ''earthling'', ''hours'', ''heathen'', ''reality'', ''the next day'',
     ''blackstar'', ''toy'']"

text \<open>
  \<^verbatim>\<open>rg_score(rg_id, data)\<close>. \<^verbatim>\<open>data.get("title", "").lower()\<close> raises AttributeError
  on a null title. The for-loop over the set with its \<^verbatim>\<open>break\<close> computes whether some
  canonical title occurs in the title.
\<close>

definition penalty :: "bool \<Rightarrow> int \<Rightarrow> int" where
  "penalty b n = (if b then n else 0)"

definition score_title :: "string \<Rightarrow> bool \<Rightarrow> int" where
  "score_title title has_image =
     (let is_canonical = list_ex (\<lambda>canon. contains canon title) CANONICAL_ALBUMS;
          score =
            (if is_canonical then 1000 - int (length title)
             else 0 - penalty (contains ''live'' title) 200
                    - penalty (contains ''collection'' title) 100
                    - penalty (contains ''best of'' title) 100
                    - penalty (contains ''anthology'' title) 100
                    - penalty (contains ''greatest hits'' title) 100
                    - penalty (title = ''best'') 500
                    - int (length title))
      in if has_image then score + 50 else score)"

definition rg_score :: "string \<Rightarrow> rg_record \<Rightarrow> py_error + int" where
  "rg_score rg_id data =
     (case rg_title data of
        None \<Rightarrow> Inl AttributeError
      | Some t \<Rightarrow> Inr (score_title (lower t) (truthy_str (rg_image_url data))))"

text \<open>
  \<^verbatim>\<open>sorted(full_db.items(), key=..., reverse=True)\<close>: the key of every item is computed
  first, in order (the first exception propagates), then the items are sorted stably by
  descending key, so items of equal score keep the order of the dict.
\<close>

fun score_all :: "db \<Rightarrow> py_error + (int \<times> string \<times> rg_record) list" where
  "score_all [] = Inr []"
| "score_all ((rg_id, data) # items) =
     (case rg_score rg_id data of
        Inl e \<Rightarrow> Inl e
      | Inr sc \<Rightarrow> (case score_all items of
                    Inl e \<Rightarrow> Inl e
                  | Inr scored \<Rightarrow> Inr ((sc, rg_id, data) # scored)))"

definition sorted_rgs :: "db \<Rightarrow> py_error + db" where
  "sorted_rgs full_db =
     (case score_all full_db of
        Inl e \<Rightarrow> Inl e
      | Inr scored \<Rightarrow> Inr (map snd (sort_key (\<lambda>x. - fst x) scored)))"

type_synonym rg_summary = "string option \<times> string option \<times> int \<times> string option"

record lookup =
  recordings :: "(string \<times> string) list"
  release_groups :: "(string \<times> rg_summary) list"
  track_durations :: "(string \<times> int) list"

definition empty_lookup :: lookup where
  "empty_lookup = \<lparr>recordings = [], release_groups = [], track_durations = []\<rparr>"

text \<open>The body of \<^verbatim>\<open>for track in data.get("tracks", [])\<close>.\<close>

definition index_track :: "string \<Rightarrow> track_entry \<Rightarrow> lookup \<Rightarrow> lookup" where
  "index_track rg_id track lk =
     (case te_id track of
        None \<Rightarrow> lk
      | Some rec_id \<Rightarrow>
          if rec_id = [] then lk
          else
            let lk1 = (case te_duration_ms track of
                         None \<Rightarrow> lk
                       | Some duration \<Rightarrow>
                           if duration \<noteq> 0
                           then lk\<lparr>track_durations :=
                                     AList.update rec_id duration (track_durations lk)\<rparr>
                           else lk)
            in if map_of (recordings lk1) rec_id = None
               then lk1\<lparr>recordings := AList.update rec_id rg_id (recordings lk1)\<rparr>
               else lk1)"

text \<open>The body of \<^verbatim>\<open>for rg_id, data in sorted_rgs\<close>.\<close>

definition index_group :: "string \<times> rg_record \<Rightarrow> lookup \<Rightarrow> lookup" where
  "index_group item lk =
     (case item of (rg_id, data) \<Rightarrow>
        fold (index_track rg_id) (rg_tracks data)
          (lk\<lparr>release_groups :=
                AList.update rg_id
                  (rg_title data, rg_image_url data, rg_track_count data, rg_type data)
                  (release_groups lk)\<rparr>))"

definition index_groups :: "db \<Rightarrow> lookup" where
  "index_groups items = fold index_group items empty_lookup"

definition build_lookup :: "db \<Rightarrow> py_error + lookup" where
  "build_lookup full_db =
     (case sorted_rgs full_db of
        Inl e \<Rightarrow> Inl e
      | Inr items \<Rightarrow> Inr (index_groups items))"

section \<open>process\_lookup.py\<close>

type_synonym name_map = "(string \<times> (string \<times> string) list) list"

text \<open>The body of \<^verbatim>\<open>for track in data.get("tracks", [])\<close> of \<^verbatim>\<open>process_metadata\<close>.\<close>

definition name_track :: "string \<Rightarrow> track_entry \<Rightarrow> name_map \<Rightarrow> name_map" where
  "name_track rg_id track nm =
     (if \<not> truthy_str (te_id track) \<or> \<not> truthy_str (te_title track) then nm
      else
        case (te_id track, te_title track) of
          (Some rec_id, Some rec_name) \<Rightarrow>
            let norm_name = lower rec_name;
                nm1 = (if map_of nm norm_name = None then AList.update norm_name [] nm else nm);
                entry = (rec_id, rg_id)
            in (case map_of nm1 norm_name of
                  None \<Rightarrow> nm1
                | Some entries \<Rightarrow>
                    if entry \<in> set entries then nm1
                    else AList.update norm_name (entries @ [entry]) nm1)
        | _ \<Rightarrow> nm)"

definition name_group :: "string \<times> rg_record \<Rightarrow> name_map \<Rightarrow> name_map" where
  "name_group item nm = (case item of (rg_id, data) \<Rightarrow> fold (name_track rg_id) (rg_tracks data) nm)"

text \<open>The \<^verbatim>\<open>name_map\<close> that \<^verbatim>\<open>process_metadata\<close> stores under \<^verbatim>\<open>lookup["name_map"]\<close>.\<close>

definition process_metadata :: "db \<Rightarrow> name_map" where
  "process_metadata full_db = fold name_group full_db []"

section \<open>Notions used to state the properties\<close>

text \<open>
  A release group ranks above another when its canonical score is the higher one; the
  stable descending sort then puts it first.
\<close>

definition ranks_above :: "string \<times> rg_record \<Rightarrow> string \<times> rg_record \<Rightarrow> bool" where
  "ranks_above a b =
     (case (rg_score (fst a) (snd a), rg_score (fst b) (snd b)) of
        (Inr x, Inr y) \<Rightarrow> y < x
      | _ \<Rightarrow> False)"

text \<open>The status code of an attempt that got a response.\<close>

fun status_of :: "'a outcome \<Rightarrow> nat option" where
  "status_of (Response status_code body) = Some status_code"
| "status_of Raised = None"

text \<open>\<^verbatim>\<open>final_db[rg_id]["tracks"]\<close>, empty while the group is not in the database.\<close>

definition tracks_of :: "db \<Rightarrow> string \<Rightarrow> track_entry list" where
  "tracks_of database rg_id =
     (case map_of database rg_id of None \<Rightarrow> [] | Some r \<Rightarrow> rg_tracks r)"

text \<open>All the tracks of a release detail, in the order the two loops visit them.\<close>

definition all_tracks :: "details \<Rightarrow> api_track list" where
  "all_tracks d = concat (map get_tracks (get_media d))"

text \<open>The recording id of a track of a release detail.\<close>

definition recording_id :: "api_track \<Rightarrow> string option" where
  "recording_id track = rc_id (get_recording track)"

text \<open>The invariant of the database: within a group, no two tracks have the same id.\<close>

definition unique_track_ids :: "db \<Rightarrow> bool" where
  "unique_track_ids database = (\<forall>(rg_id, r) \<in> set database. distinct (map te_id (rg_tracks r)))"

text \<open>
  The entries a release's tracks add to a track list whose ids are \<open>existing\<close>: the first
  sighting of each id that is neither empty nor known.
\<close>

fun added :: "api_track list \<Rightarrow> string option set \<Rightarrow> track_entry list" where
  "added [] existing = []"
| "added (track # rest) existing =
     (if truthy_str (recording_id track) \<and> recording_id track \<notin> existing
      then new_entry track # added rest (insert (recording_id track) existing)
      else added rest existing)"

text \<open>
  The loop attempts a release when it passes both skips: its id is not in the processed
  set and it carries a release-group id.
\<close>

definition attempted :: "release \<Rightarrow> crawl_state \<Rightarrow> bool" where
  "attempted rel s =
     (rel_id rel \<notin> processed_rel_ids s \<and> truthy_str (rgp_id (get_release_group rel)))"

text \<open>
  What holds all along a detail phase in which no fetch fails, for a run that loaded
  the processed set \<open>loaded_ids\<close>: the counter is the number of releases processed in
  this run, there is one checkpoint for every ten of them, and the \<open>k\<close>-th checkpoint
  was written when \<open>10 * k\<close> releases had been processed.
\<close>

definition steady :: "string set \<Rightarrow> crawl_state \<Rightarrow> bool" where
  "steady loaded_ids s =
     (loaded_ids \<subseteq> processed_rel_ids s
      \<and> finite (processed_rel_ids s - loaded_ids)
      \<and> processed_this_run s = card (processed_rel_ids s - loaded_ids)
      \<and> length (checkpoints s) = processed_this_run s div 10
      \<and> (\<forall>k < length (checkpoints s).
            card (snd (checkpoints s ! k) - loaded_ids) = 10 * (k + 1)))"

text \<open>\<^verbatim>\<open>name_map.get(name, [])\<close>: the candidate list of a name.\<close>

definition candidates :: "name_map \<Rightarrow> string \<Rightarrow> (string \<times> string) list" where
  "candidates nm name = (case map_of nm name of None \<Rightarrow> [] | Some entries \<Rightarrow> entries)"

text \<open>
  The pairs the tracks of a group contribute to a name: a track counts when both its
  recording id and its title are set and not empty, under its lower-cased title.
\<close>

definition named_pairs :: "string \<Rightarrow> track_entry list \<Rightarrow> string \<Rightarrow> (string \<times> string) set" where
  "named_pairs rg_id tracks name =
     {(r, rg_id) |r t n. t \<in> set tracks \<and> te_id t = Some r \<and> r \<noteq> []
        \<and> te_title t = Some n \<and> n \<noteq> [] \<and> lower n = name}"

definition all_named_pairs :: "db \<Rightarrow> string \<Rightarrow> (string \<times> string) set" where
  "all_named_pairs database name =
     (\<Union>(rg_id, data) \<in> set database. named_pairs rg_id (rg_tracks data) name)"

text \<open>A well-formed name map: no name twice, no pair twice in a candidate list.\<close>

definition tidy :: "name_map \<Rightarrow> bool" where
  "tidy nm = (distinct (map fst nm) \<and> (\<forall>(name, entries) \<in> set nm. distinct entries))"

text \<open>The canonical score of a release group whose title is a string.\<close>

definition score_of :: "string \<times> rg_record \<Rightarrow> int" where
  "score_of item = (case rg_score (fst item) (snd item) of Inl e \<Rightarrow> 0 | Inr sc \<Rightarrow> sc)"

text \<open>The entry of a release group in \<^verbatim>\<open>lookup["release_groups"]\<close>.\<close>

definition summary_of :: "string \<times> rg_record \<Rightarrow> string \<times> rg_summary" where
  "summary_of item =
     (fst item, rg_title (snd item), rg_image_url (snd item), rg_track_count (snd item),
      rg_type (snd item))"

text \<open>A release group contains a recording when one of its tracks has that id, not empty.\<close>

definition has_recording :: "string \<Rightarrow> string \<times> rg_record \<Rightarrow> bool" where
  "has_recording r item = (r \<noteq> [] \<and> Some r \<in> set (map te_id (rg_tracks (snd item))))"

text \<open>
  The durations under which a recording id is sighted, in the order of the release
  groups and of their tracks: a track counts when its id is that one, not empty, and its
  duration is set and not zero.
\<close>

definition duration_sighting :: "string \<Rightarrow> track_entry \<Rightarrow> int list" where
  "duration_sighting r track =
     (if r \<noteq> [] \<and> te_id track = Some r
      then (case te_duration_ms track of
              None \<Rightarrow> []
            | Some duration \<Rightarrow> if duration \<noteq> 0 then [duration] else [])
      else [])"

definition durations_in :: "string \<Rightarrow> track_entry list \<Rightarrow> int list" where
  "durations_in r tracks = concat (map (duration_sighting r) tracks)"

definition durations_seen :: "string \<Rightarrow> db \<Rightarrow> int list" where
  "durations_seen r items = concat (map (\<lambda>item. durations_in r (rg_tracks (snd item))) items)"

definition last_option :: "'a list \<Rightarrow> 'a option" where
  "last_option xs = (if xs = [] then None else Some (last xs))"

section \<open>Sample inputs\<close>

text \<open>A release group with a title and nothing else: no image, no track.\<close>

definition titled :: "string \<Rightarrow> rg_record" where
  "titled t = \<lparr>rg_title = Some t, rg_type = None, rg_track_count = 0,
               rg_image_url = None, rg_tracks = []\<rparr>"

text \<open>A rate-limit response, then a timeout, then a good response.\<close>

definition net_third_time :: "nat \<Rightarrow> string outcome" where
  "net_third_time i =
     (if i = 0 then Response 503 Unparsable
      else if i = 1 then Raised
      else Response 200 (Parsed ''body''))"

text \<open>A server that answers 404 every time.\<close>

definition net_not_found :: "nat \<Rightarrow> string outcome" where
  "net_not_found i = Response 404 Unparsable"

text \<open>A 200 response whose body is no JSON, then a 200 response whose body is.\<close>

definition net_garbled_first :: "nat \<Rightarrow> string outcome" where
  "net_garbled_first i =
     (if i = 0 then Response 200 Unparsable else Response 200 (Parsed ''second body''))"

text \<open>The double quote of a JSON string.\<close>

definition dq :: string where
  "dq = [CHR 0x22]"

text \<open>
  The files before a periodic checkpoint, as an earlier one left them, and the pieces
  the checkpoint dumps: one more release group, one more release id.
\<close>

definition old_db_text :: string where
  "old_db_text = ''{}''"

definition new_db_text :: string where
  "new_db_text = ''{'' @ dq @ ''g1'' @ dq @ '': {}}''"

definition old_ids_text :: string where
  "old_ids_text = ''['' @ dq @ ''r1'' @ dq @ '']''"

definition new_ids_text :: string where
  "new_ids_text = ''['' @ dq @ ''r1'' @ dq @ '', '' @ dq @ ''r2'' @ dq @ '']''"

definition files_before :: filesystem where
  "files_before =
     (Map.empty(OUTPUT_FILE \<mapsto> old_db_text))(PROGRESS_FILE \<mapsto> old_ids_text)"

text \<open>Two releases of one release group, whose tracklists share a recording.\<close>

definition track_of :: "string \<Rightarrow> string \<Rightarrow> int \<Rightarrow> api_track" where
  "track_of rid title len =
     \<lparr>trk_title = Val title, trk_length = Some len,
      trk_recording = Some \<lparr>rc_id = Some rid, rc_title = Some title, rc_length = None\<rparr>\<rparr>"

definition details_of :: "api_track list \<Rightarrow> details" where
  "details_of ts = \<lparr>det_media = Some [\<lparr>med_tracks = Some ts\<rparr>], det_has_other_keys = True\<rparr>"

definition release_of :: "string \<Rightarrow> string \<Rightarrow> string \<Rightarrow> bool \<Rightarrow> release" where
  "release_of rid title rg_id front =
     \<lparr>rel_id = rid, rel_title = Some title,
      rel_release_group =
        Some \<lparr>rgp_id = Some rg_id, rgp_title = Val title, rgp_primary_type = Some ''Album''\<rparr>,
      rel_cover_art_archive = Some \<lparr>caa_front = Some front\<rparr>\<rparr>"

definition first_release :: release where
  "first_release = release_of ''rel-1'' ''Low'' ''rg-low'' False"

definition first_details :: details where
  "first_details =
     details_of [track_of ''rec-1'' ''Speed of Life'' 167000,
                 track_of ''rec-2'' ''Breaking Glass'' 112000]"

definition second_release :: release where
  "second_release = release_of ''rel-2'' ''Low'' ''rg-low'' True"

definition second_details :: details where
  "second_details =
     details_of [track_of ''rec-2'' ''Breaking Glass (2017 remaster)'' 113000,
                 track_of ''rec-3'' ''What in the World'' 143000]"

definition db_after_first :: db where
  "db_after_first = merge_release [] ''rg-low'' first_release first_details"

text \<open>A release whose detail fetch succeeds, with an empty tracklist, and one whose fetch fails.\<close>

definition fetched_release :: "string \<Rightarrow> release \<times> details option" where
  "fetched_release rid = (release_of rid ''Low'' ''rg-low'' False, Some (details_of []))"

definition failed_release :: "string \<Rightarrow> release \<times> details option" where
  "failed_release rid = (release_of rid ''Low'' ''rg-low'' False, None)"

text \<open>A release without a release group.\<close>

definition orphan_release :: "string \<Rightarrow> release \<times> details option" where
  "orphan_release rid =
     (\<lparr>rel_id = rid, rel_title = Some ''Low'', rel_release_group = None,
       rel_cover_art_archive = None\<rparr>, Some (details_of []))"

text \<open>The ids \<open>r\<close>, \<open>rr\<close>, \<open>rrr\<close> and so on.\<close>

definition numbered_id :: "nat \<Rightarrow> string" where
  "numbered_id n = replicate (Suc n) (CHR ''r'')"

text \<open>150 releases, every detail fetch succeeding.\<close>

definition run_150 :: "(release \<times> details option) list" where
  "run_150 = map (\<lambda>n. fetched_release (numbered_id n)) [0..<150]"

text \<open>Ten releases, the detail fetch of the first one failing.\<close>

definition run_first_fails :: "(release \<times> details option) list" where
  "run_first_fails =
     [failed_release ''r0'', fetched_release ''r1'', fetched_release ''r2'',
      fetched_release ''r3'', fetched_release ''r4'', fetched_release ''r5'',
      fetched_release ''r6'', fetched_release ''r7'', fetched_release ''r8'',
      fetched_release ''r9'']"

text \<open>
  A database of two release groups that share a recording, with titles in different
  case and different durations; one track has no duration.
\<close>

definition entry_of :: "string \<Rightarrow> string \<Rightarrow> int \<Rightarrow> track_entry" where
  "entry_of rid title ms = \<lparr>te_id = Some rid, te_title = Some title, te_duration_ms = Some ms\<rparr>"

definition live_group :: "string \<times> rg_record" where
  "live_group =
     (''rg-live'',
      (titled ''Live in Berlin (Live)'')
        \<lparr>rg_tracks := [entry_of ''rec-warszawa'' ''WARSZAWA'' 372000,
                       entry_of ''rec-intro'' ''Intro'' 0]\<rparr>)"

definition low_group :: "string \<times> rg_record" where
  "low_group =
     (''rg-low'',
      (titled ''Low'')
        \<lparr>rg_tracks := [entry_of ''rec-warszawa'' ''Warszawa'' 370000,
                       entry_of ''rec-sound'' ''Sound and Vision'' 183000]\<rparr>)"

definition sample_db :: db where
  "sample_db = [live_group, low_group]"

text \<open>Eleven releases, the detail fetch of the tenth one failing.\<close>

definition run_tenth_fails :: "(release \<times> details option) list" where
  "run_tenth_fails =
     [fetched_release ''r1'', fetched_release ''r2'', fetched_release ''r3'',
      fetched_release ''r4'', fetched_release ''r5'', fetched_release ''r6'',
      fetched_release ''r7'', fetched_release ''r8'', fetched_release ''r9'',
      failed_release ''r10'', fetched_release ''r11'']"

section \<open>The canonical score of three titles\<close>

lemmas score_defs =
  rg_score_def titled_def score_title_def lower_def lower_char_def CANONICAL_ALBUMS_def
  penalty_def

lemma score_low: "rg_score g (titled ''Low'') = Inr 997"
  by (simp add: score_defs)

lemma score_live_in_berlin: "rg_score g (titled ''Live in Berlin (Live)'') = Inr (- 221)"
  by (simp add: score_defs)

lemma score_greatest_hits: "rg_score g (titled ''Greatest Hits'') = Inr (- 113)"
  by (simp add: score_defs)

text \<open>
  C6 (as the code has it). Of the three release groups titled "Low", "Live in Berlin
  (Live)" and "Greatest Hits", none with an image, the canonical scoring function gives
  "Low" the score 997, "Greatest Hits" the score -113 and "Live in Berlin (Live)" the
  score -221. So "Low" ranks above "Greatest Hits", which ranks above "Live in Berlin
  (Live)", and the sort emits them in that order.
\<close>

theorem C6_ranking_of_three_titles:
  "rg_score ''rg-low'' (titled ''Low'') = Inr 997
   \<and> rg_score ''rg-hits'' (titled ''Greatest Hits'') = Inr (- 113)
   \<and> rg_score ''rg-live'' (titled ''Live in Berlin (Live)'') = Inr (- 221)
   \<and> ranks_above (''rg-low'', titled ''Low'') (''rg-hits'', titled ''Greatest Hits'')
   \<and> ranks_above (''rg-hits'', titled ''Greatest Hits'')
        (''rg-live'', titled ''Live in Berlin (Live)'')
   \<and> ranks_above (''rg-low'', titled ''Low'') (''rg-live'', titled ''Live in Berlin (Live)'')
   \<and> sorted_rgs [(''rg-low'', titled ''Low''),
                  (''rg-live'', titled ''Live in Berlin (Live)''),
                  (''rg-hits'', titled ''Greatest Hits'')]
       = Inr [(''rg-low'', titled ''Low''),
              (''rg-hits'', titled ''Greatest Hits''),
              (''rg-live'', titled ''Live in Berlin (Live)'')]"
  by (simp add: ranks_above_def sorted_rgs_def score_low score_live_in_berlin
      score_greatest_hits)

text \<open>
  C6 as the specification states it fails: "Live in Berlin (Live)" does not rank above
  "Greatest Hits".
\<close>

theorem C6_live_not_above_greatest_hits:
  "\<not> ranks_above (''rg-live'', titled ''Live in Berlin (Live)'')
       (''rg-hits'', titled ''Greatest Hits'')"
  by (simp add: ranks_above_def score_live_in_berlin score_greatest_hits)

section \<open>The Fetcher\<close>

lemma fetch_loop_exhausted:
  "(\<And>i v. i \<in> set idxs \<Longrightarrow> net i \<noteq> Response 200 (Parsed v)) \<Longrightarrow>
   result (fetch_loop net idxs made sl) = None
   \<and> attempts (fetch_loop net idxs made sl) = made + length idxs"
proof (induction idxs arbitrary: made sl)
  case Nil
  then show ?case by simp
next
  case (Cons a idxs)
  have bad: "\<And>v. net a \<noteq> Response 200 (Parsed v)" using Cons.prems by simp
  have rest: "\<And>m s. result (fetch_loop net idxs m s) = None
      \<and> attempts (fetch_loop net idxs m s) = m + length idxs"
    using Cons.IH Cons.prems by simp
  show ?case
  proof (cases "net a")
    case (Response code body)
    with bad show ?thesis by (cases body) (auto simp: rest)
  next
    case Raised
    then show ?thesis by (simp add: rest)
  qed
qed

lemma fetch_loop_first:
  "(\<And>j w. j \<in> set pre \<Longrightarrow> net j \<noteq> Response 200 (Parsed w)) \<Longrightarrow>
   net i = Response 200 (Parsed v) \<Longrightarrow>
   result (fetch_loop net (pre @ i # post) made sl) = Some v
   \<and> attempts (fetch_loop net (pre @ i # post) made sl) = made + length pre + 1"
proof (induction pre arbitrary: made sl)
  case Nil
  then show ?case by simp
next
  case (Cons a pre)
  have bad: "\<And>w. net a \<noteq> Response 200 (Parsed w)" using Cons.prems(1) by simp
  have rest: "\<And>m s. result (fetch_loop net (pre @ i # post) m s) = Some v
      \<and> attempts (fetch_loop net (pre @ i # post) m s) = m + length pre + 1"
    using Cons.IH Cons.prems by simp
  show ?case
  proof (cases "net a")
    case (Response code body)
    with bad show ?thesis by (cases body) (auto simp: rest)
  next
    case Raised
    then show ?thesis by (simp add: rest)
  qed
qed

lemma fetch_loop_attempts_le:
  "attempts (fetch_loop net idxs made sl) \<le> made + length idxs"
proof (induction idxs arbitrary: made sl)
  case Nil
  then show ?case by simp
next
  case (Cons a idxs)
  have rest: "\<And>m s. attempts (fetch_loop net idxs m s) \<le> m + length idxs"
    using Cons.IH by simp
  show ?case
  proof (cases "net a")
    case (Response code body)
    then show ?thesis
    proof (cases body)
      case Unparsable
      with Response show ?thesis using rest [of "made + 1"] by simp
    next
      case (Parsed v)
      with Response show ?thesis using rest [of "made + 1"] by simp
    qed
  next
    case Raised
    then show ?thesis using rest [of "made + 1"] by simp
  qed
qed

lemma upt_split: "i < n \<Longrightarrow> [0..<n] = [0..<i] @ i # [Suc i..<n]"
proof -
  assume "i < n"
  then have "[0..<n] = [0..<i] @ [i..<n]"
    using upt_add_eq_append [of 0 i "n - i"] by simp
  also have "[i..<n] = i # [Suc i..<n]"
    using \<open>i < n\<close> by (rule upt_conv_Cons)
  finally show ?thesis .
qed

text \<open>
  C8 (as the code has it). For every sequence of per-attempt outcomes, \<open>fetch_json\<close>
  makes at most 5 attempts; it returns the parsed body of the first attempt, among the
  five, that yields status 200 with a body that parses as JSON, right after that
  attempt; and when no attempt does, it returns \<open>None\<close> after 5 attempts. It is a total
  function: an error status, an unparsable body or a transport failure is an outcome it
  retries, never an exception of its own.
\<close>

theorem C8_fetch_json_first_parsed_200:
  "attempts (fetch_json net) \<le> 5
   \<and> (\<forall>i v. i < 5 \<and> net i = Response 200 (Parsed v)
             \<and> (\<forall>j<i. \<forall>w. net j \<noteq> Response 200 (Parsed w))
          \<longrightarrow> result (fetch_json net) = Some v \<and> attempts (fetch_json net) = i + 1)
   \<and> ((\<forall>i<5. \<forall>v. net i \<noteq> Response 200 (Parsed v))
          \<longrightarrow> result (fetch_json net) = None \<and> attempts (fetch_json net) = 5)"
proof -
  have first: "result (fetch_json net) = Some v \<and> attempts (fetch_json net) = i + 1"
    if "i < 5" "net i = Response 200 (Parsed v)"
       "\<forall>j<i. \<forall>w. net j \<noteq> Response 200 (Parsed w)" for i v
  proof -
    have "[0..<5] = [0..<i] @ i # [Suc i..<5]" using that(1) by (rule upt_split)
    moreover have "\<And>j w. j \<in> set [0..<i] \<Longrightarrow> net j \<noteq> Response 200 (Parsed w)"
      using that(3) by simp
    ultimately show ?thesis
      using fetch_loop_first [of "[0..<i]" net i v "[Suc i..<5]" 0 0] that(2)
      by (simp add: fetch_json_def)
  qed
  have none: "result (fetch_json net) = None \<and> attempts (fetch_json net) = 5"
    if "\<forall>i<5. \<forall>v. net i \<noteq> Response 200 (Parsed v)"
    using fetch_loop_exhausted [of "[0..<5]" net 0 0] that by (simp add: fetch_json_def)
  have le: "attempts (fetch_json net) \<le> 5"
    using fetch_loop_attempts_le [of net "[0..<5]" 0 0] by (simp add: fetch_json_def)
  from le first none show ?thesis by blast
qed

theorem C8_fetch_json_witness:
  "result (fetch_json net_third_time) = Some ''body''
   \<and> attempts (fetch_json net_third_time) = 3
   \<and> result (fetch_json net_not_found) = None
   \<and> attempts (fetch_json net_not_found) = 5"
proof -
  have "(2::nat) < 5 \<and> net_third_time 2 = Response 200 (Parsed ''body'')
        \<and> (\<forall>j<2. \<forall>w. net_third_time j \<noteq> Response 200 (Parsed w))"
    by (simp add: net_third_time_def)
  then have a: "result (fetch_json net_third_time) = Some ''body''
      \<and> attempts (fetch_json net_third_time) = 2 + 1"
    using C8_fetch_json_first_parsed_200 [of net_third_time] by blast
  have "\<forall>i<5. \<forall>v. net_not_found i \<noteq> Response 200 (Parsed v)"
    by (simp add: net_not_found_def)
  then have b: "result (fetch_json net_not_found) = None
      \<and> attempts (fetch_json net_not_found) = 5"
    using C8_fetch_json_first_parsed_200 [of net_not_found] by blast
  from a b show ?thesis by simp
qed

text \<open>
  C8 as the specification states it fails. The first attempt yields status 200, with a
  body that does not parse: \<open>fetch_json\<close> does not return after it, it makes a second
  attempt and returns the body of that one.
\<close>

theorem C8_first_200_not_returned:
  "status_of (net_garbled_first 0) = Some 200
   \<and> attempts (fetch_json net_garbled_first) = 2
   \<and> result (fetch_json net_garbled_first) = Some ''second body''"
  by (simp add: fetch_json_def net_garbled_first_def upt_rec)

section \<open>Writing the files\<close>

lemma apply_op_other:
  "(case op of Open_w p \<Rightarrow> q \<noteq> p | Write_piece p piece \<Rightarrow> q \<noteq> p
      | Replace src dst \<Rightarrow> q \<noteq> src \<and> q \<noteq> dst) \<Longrightarrow>
   apply_op op fs q = fs q"
  by (cases op) (auto split: option.splits)

lemma fold_writes_other:
  "q \<noteq> p \<Longrightarrow> fold apply_op (map (Write_piece p) pieces) fs q = fs q"
  by (induction pieces arbitrary: fs) (auto split: option.splits)

lemma fold_writes_same:
  "fs p = Some old \<Longrightarrow>
   fold apply_op (map (Write_piece p) pieces) fs p = Some (old @ concat pieces)"
  by (induction pieces arbitrary: fs old) auto

lemma take_dump_other:
  "q \<noteq> p \<Longrightarrow> fold apply_op (take k (dump_ops p pieces)) fs q = fs q"
proof (cases k)
  case 0
  then show ?thesis by simp
next
  case (Suc n)
  assume "q \<noteq> p"
  then have "fold apply_op (map (Write_piece p) (take n pieces)) (fs(p \<mapsto> [])) q = fs q"
    by (simp add: fold_writes_other)
  then show ?thesis using Suc by (simp add: dump_ops_def take_map)
qed

lemma dump_same:
  "fold apply_op (dump_ops p pieces) fs p = Some (concat pieces)"
  using fold_writes_same [of "fs(p \<mapsto> [])" p "[]" pieces] by (simp add: dump_ops_def)

lemma dump_other:
  "q \<noteq> p \<Longrightarrow> fold apply_op (dump_ops p pieces) fs q = fs q"
  using take_dump_other [of q p "length (dump_ops p pieces)" pieces fs] by simp

lemma path_facts:
  "OUTPUT_FILE \<noteq> OUTPUT_FILE @ ''.tmp''" "OUTPUT_FILE \<noteq> PROGRESS_FILE"
  "PROGRESS_FILE \<noteq> OUTPUT_FILE @ ''.tmp''"
  by (simp_all add: OUTPUT_FILE_def PROGRESS_FILE_def)

text \<open>
  The database file is replaced in one step: wherever a crash stops a periodic
  checkpoint, the text under \<open>OUTPUT_FILE\<close> is the one from before or the complete
  new one.
\<close>

lemma database_file_atomic:
  "crash_after k (periodic_checkpoint_ops db_pieces ids_pieces) fs OUTPUT_FILE = fs OUTPUT_FILE
   \<or> crash_after k (periodic_checkpoint_ops db_pieces ids_pieces) fs OUTPUT_FILE
       = Some (concat db_pieces)"
proof -
  let ?tmp = "OUTPUT_FILE @ ''.tmp''"
  let ?A = "dump_ops ?tmp db_pieces"
  let ?B = "dump_ops PROGRESS_FILE ids_pieces"
  show ?thesis
  proof (cases "k \<le> length ?A")
    case True
    then have "take k (periodic_checkpoint_ops db_pieces ids_pieces) = take k ?A"
      by (simp add: periodic_checkpoint_ops_def)
    then show ?thesis
      using take_dump_other [of OUTPUT_FILE ?tmp k db_pieces fs] path_facts
      by (simp add: crash_after_def)
  next
    case False
    then obtain m where k: "k = length ?A + Suc m"
      by (metis add_Suc_right less_imp_Suc_add not_le)
    let ?fs1 = "fold apply_op ?A fs"
    let ?fs2 = "apply_op (Replace ?tmp OUTPUT_FILE) ?fs1"
    have take: "take k (periodic_checkpoint_ops db_pieces ids_pieces)
        = ?A @ Replace ?tmp OUTPUT_FILE # take m ?B"
      by (simp add: periodic_checkpoint_ops_def k)
    have "?fs1 ?tmp = Some (concat db_pieces)" by (rule dump_same)
    then have "?fs2 OUTPUT_FILE = Some (concat db_pieces)" using path_facts by simp
    moreover have "fold apply_op (take m ?B) ?fs2 OUTPUT_FILE = ?fs2 OUTPUT_FILE"
      using path_facts by (intro take_dump_other) simp
    ultimately show ?thesis by (simp add: crash_after_def take)
  qed
qed

text \<open>
  C4 (where the code departs from it). A periodic checkpoint writes the processed set
  straight to \<open>PROGRESS_FILE\<close>, without a temporary file. With the database dumped
  in one piece, a crash after the fourth operation of the checkpoint, the
  \<^verbatim>\<open>open(PROGRESS_FILE, "w")\<close>, leaves an empty file under the canonical name: neither
  the text from before (which a crash one operation earlier leaves) nor the complete new
  text (which the finished checkpoint leaves).
\<close>

theorem C4_progress_file_empty_after_crash:
  "crash_after 3 (periodic_checkpoint_ops [new_db_text] [new_ids_text]) files_before
       PROGRESS_FILE = Some old_ids_text
   \<and> crash_after 4 (periodic_checkpoint_ops [new_db_text] [new_ids_text]) files_before
       PROGRESS_FILE = Some []
   \<and> crash_after 5 (periodic_checkpoint_ops [new_db_text] [new_ids_text]) files_before
       PROGRESS_FILE = Some new_ids_text
   \<and> old_ids_text \<noteq> [] \<and> new_ids_text \<noteq> []"
  by (simp add: crash_after_def periodic_checkpoint_ops_def dump_ops_def files_before_def
      numeral_3_eq_3 numeral_eq_Suc path_facts old_ids_text_def new_ids_text_def
      OUTPUT_FILE_def PROGRESS_FILE_def)

section \<open>The Merge/Dedup Engine\<close>

lemma te_id_new_entry [simp]: "te_id (new_entry t) = recording_id t"
  by (simp add: new_entry_def recording_id_def)

lemma merge_tracks_added:
  "merge_tracks ts (tr, ex, n)
   = (tr @ added ts ex, ex \<union> set (map te_id (added ts ex)), n + int (length ts))"
proof (induction ts arbitrary: tr ex n)
  case Nil
  then show ?case by simp
next
  case (Cons t ts)
  show ?case
  proof (cases "truthy_str (recording_id t) \<and> recording_id t \<notin> ex")
    case True
    then show ?thesis
      using Cons.IH [of "tr @ [new_entry t]" "insert (recording_id t) ex" "n + 1"]
      by (simp add: recording_id_def [symmetric] Let_def)
  next
    case False
    then show ?thesis
      using Cons.IH [of tr ex "n + 1"] by (auto simp: recording_id_def [symmetric] Let_def)
  qed
qed

lemma added_append:
  "added (xs @ ys) ex = added xs ex @ added ys (ex \<union> set (map te_id (added xs ex)))"
  by (induction xs arbitrary: ex) auto

lemma merge_media_added:
  "merge_media ms (tr, ex, n)
   = (tr @ added (concat (map get_tracks ms)) ex,
      ex \<union> set (map te_id (added (concat (map get_tracks ms)) ex)),
      n + int (length (concat (map get_tracks ms))))"
proof (induction ms arbitrary: tr ex n)
  case Nil
  then show ?case by simp
next
  case (Cons m ms)
  show ?case
    by (simp add: merge_tracks_added Cons.IH added_append Un_assoc add.assoc)
qed

lemma set_ids_added:
  "set (map te_id (added ts ex))
   = {recording_id t |t. t \<in> set ts \<and> truthy_str (recording_id t)} - ex"
  by (induction ts arbitrary: ex) auto

lemma ids_added_new: "e \<in> set (added ts ex) \<Longrightarrow> te_id e \<notin> ex"
proof (induction ts arbitrary: ex)
  case Nil
  then show ?case by simp
next
  case (Cons t ts)
  show ?case
  proof (cases "truthy_str (recording_id t) \<and> recording_id t \<notin> ex")
    case True
    with Cons.prems have "e = new_entry t \<or> e \<in> set (added ts (insert (recording_id t) ex))"
      by simp
    then show ?thesis
    proof
      assume "e = new_entry t"
      with True show ?thesis by simp
    next
      assume "e \<in> set (added ts (insert (recording_id t) ex))"
      then have "te_id e \<notin> insert (recording_id t) ex" by (rule Cons.IH)
      then show ?thesis by simp
    qed
  next
    case False
    with Cons.prems have "e \<in> set (added ts ex)" by auto
    then show ?thesis by (rule Cons.IH)
  qed
qed

lemma distinct_ids_added: "distinct (map te_id (added ts ex))"
proof (induction ts arbitrary: ex)
  case Nil
  then show ?case by simp
next
  case (Cons t ts)
  have "recording_id t \<notin> te_id ` set (added ts (insert (recording_id t) ex))"
  proof
    assume "recording_id t \<in> te_id ` set (added ts (insert (recording_id t) ex))"
    then obtain e where e: "e \<in> set (added ts (insert (recording_id t) ex))"
      and "recording_id t = te_id e" by blast
    from e have "te_id e \<notin> insert (recording_id t) ex" by (rule ids_added_new)
    with \<open>recording_id t = te_id e\<close> show False by simp
  qed
  then show ?case using Cons.IH by simp
qed

lemma added_nothing:
  "(\<And>t. t \<in> set ts \<Longrightarrow> truthy_str (recording_id t) \<Longrightarrow> recording_id t \<in> ex) \<Longrightarrow>
   added ts ex = []"
  by (induction ts arbitrary: ex) auto

lemma find_added:
  "find (\<lambda>e. te_id e = Some r) (added ts ex)
   = (if r \<noteq> [] \<and> Some r \<notin> ex
      then map_option new_entry (find (\<lambda>t. recording_id t = Some r) ts)
      else None)"
proof (induction ts arbitrary: ex)
  case Nil
  then show ?case by simp
next
  case (Cons t ts)
  show ?case
  proof (cases "recording_id t = Some r")
    case True
    then show ?thesis using Cons.IH [of ex] Cons.IH [of "insert (Some r) ex"] by auto
  next
    case False
    then show ?thesis
      using Cons.IH [of ex] Cons.IH [of "insert (recording_id t) ex"] by auto
  qed
qed

lemma set_image_fields [simp]:
  "rg_tracks (set_image r rel) = rg_tracks r"
  "rg_track_count (set_image r rel) = rg_track_count r"
  "rg_title (set_image r rel) = rg_title r"
  "rg_type (set_image r rel) = rg_type r"
  by (simp_all add: set_image_def)

lemma set_image_settled:
  "set_image (set_image r rel\<lparr>rg_tracks := ts, rg_track_count := c\<rparr>) rel
   = set_image r rel\<lparr>rg_tracks := ts, rg_track_count := c\<rparr>"
  by (simp add: set_image_def image_url_of_def)

lemma fold_record_eq:
  "fold_record old rel d =
     set_image (get_or_create old rel) rel
       \<lparr>rg_tracks := rg_tracks (get_or_create old rel)
          @ added (all_tracks d) (set (map te_id (rg_tracks (get_or_create old rel)))),
        rg_track_count :=
          max (rg_track_count (get_or_create old rel)) (int (length (all_tracks d)))\<rparr>"
  by (simp add: fold_record_def Let_def merge_media_added all_tracks_def)

lemma added_again:
  "added ts (ex \<union> set (map te_id (added ts ex))) = []"
proof (rule added_nothing)
  fix t assume "t \<in> set ts" "truthy_str (recording_id t)"
  then have "recording_id t \<in> ex \<or> recording_id t \<in> set (map te_id (added ts ex))"
    unfolding set_ids_added by blast
  then show "recording_id t \<in> ex \<union> set (map te_id (added ts ex))" by simp
qed

lemma fold_record_idem:
  "fold_record (Some (fold_record old rel d)) rel d = fold_record old rel d"
proof -
  let ?r = "get_or_create old rel"
  let ?A = "added (all_tracks d) (set (map te_id (rg_tracks ?r)))"
  let ?n = "int (length (all_tracks d))"
  let ?r' = "set_image ?r rel\<lparr>rg_tracks := rg_tracks ?r @ ?A,
                rg_track_count := max (rg_track_count ?r) ?n\<rparr>"
  have 1: "fold_record old rel d = ?r'" by (rule fold_record_eq)
  have 2: "set_image ?r' rel = ?r'" by (rule set_image_settled)
  have 3: "added (all_tracks d) (set (map te_id (rg_tracks ?r @ ?A))) = []"
    using added_again [of "all_tracks d" "set (map te_id (rg_tracks ?r))"] by simp
  have "fold_record (Some ?r') rel d
      = set_image ?r' rel\<lparr>rg_tracks := rg_tracks ?r' @ added (all_tracks d) (set (map te_id (rg_tracks ?r'))),
           rg_track_count := max (rg_track_count ?r') ?n\<rparr>"
    by (simp only: fold_record_eq get_or_create_def option.case)
  also have "\<dots> = ?r'"
    unfolding 2 using 3 by simp
  finally show ?thesis unfolding 1 .
qed

lemma map_of_merge_release:
  "map_of (merge_release db g rel d) g = Some (fold_record (map_of db g) rel d)"
  by (simp add: merge_release_def update_conv')

lemma tracks_get_or_create:
  "rg_tracks (get_or_create (map_of db g) rel) = tracks_of db g"
  by (simp add: get_or_create_def tracks_of_def new_record_def split: option.splits)

lemma tracks_of_merge_release:
  "tracks_of (merge_release db g rel d) g
   = tracks_of db g @ added (all_tracks d) (set (map te_id (tracks_of db g)))"
proof -
  have "tracks_of (merge_release db g rel d) g = rg_tracks (fold_record (map_of db g) rel d)"
    by (simp add: tracks_of_def map_of_merge_release)
  then show ?thesis by (simp add: fold_record_eq tracks_get_or_create)
qed

lemma distinct_ids_merged:
  assumes "distinct (map te_id (tracks_of db g))"
  shows "distinct (map te_id (tracks_of (merge_release db g rel d) g))"
proof -
  let ?A = "added (all_tracks d) (set (map te_id (tracks_of db g)))"
  have "set (map te_id (tracks_of db g)) \<inter> set (map te_id ?A) = {}"
    unfolding set_ids_added by blast
  with assms distinct_ids_added [of "all_tracks d" "set (map te_id (tracks_of db g))"]
  show ?thesis by (simp add: tracks_of_merge_release)
qed

lemma set_update_subset: "set (AList.update k v al) \<subseteq> insert (k, v) (set al)"
  by (induction al) auto

lemma unique_tracks_of:
  "unique_track_ids db \<Longrightarrow> distinct (map te_id (tracks_of db g))"
  by (auto simp: unique_track_ids_def tracks_of_def split: option.splits dest!: map_of_SomeD)

lemma unique_merge_release:
  assumes "unique_track_ids db"
  shows "unique_track_ids (merge_release db g rel d)"
proof -
  have "distinct (map te_id (tracks_of (merge_release db g rel d) g))"
    using assms by (intro distinct_ids_merged unique_tracks_of)
  then have new: "distinct (map te_id (rg_tracks (fold_record (map_of db g) rel d)))"
    by (simp add: tracks_of_def map_of_merge_release)
  show ?thesis
    unfolding unique_track_ids_def
  proof (intro ballI, clarify)
    fix k r assume "(k, r) \<in> set (merge_release db g rel d)"
    then have "(k, r) = (g, fold_record (map_of db g) rel d) \<or> (k, r) \<in> set db"
      using set_update_subset [of g "fold_record (map_of db g) rel d" db]
      by (auto simp: merge_release_def)
    then show "distinct (map te_id (rg_tracks r))"
      using new assms by (auto simp: unique_track_ids_def)
  qed
qed

lemma final_db_checkpoint [simp]: "final_db (checkpoint s) = final_db s"
  by (simp add: checkpoint_def)

lemma final_db_detail_step:
  "final_db (detail_step x s) = final_db s
   \<or> (\<exists>g rel d. final_db (detail_step x s) = merge_release (final_db s) g rel d)"
  by (auto simp: detail_step_def Let_def split: prod.splits option.splits)

lemma unique_detail_step:
  "unique_track_ids (final_db s) \<Longrightarrow> unique_track_ids (final_db (detail_step x s))"
  using final_db_detail_step [of x s] by (auto simp: unique_merge_release)

lemma unique_detail_phase:
  "unique_track_ids (final_db s) \<Longrightarrow> unique_track_ids (final_db (detail_phase xs s))"
  unfolding detail_phase_def
  by (induction xs arbitrary: s) (simp_all add: unique_detail_step)

lemma count_list_distinct: "distinct xs \<Longrightarrow> x \<in> set xs \<Longrightarrow> count_list xs x = 1"
  by (induction xs) auto

lemma sighted_id_merged:
  assumes "t \<in> set (all_tracks d)" "truthy_str (recording_id t)"
  shows "recording_id t \<in> set (map te_id (tracks_of (merge_release db g rel d) g))"
proof -
  have "recording_id t \<in> set (map te_id (tracks_of db g))
      \<or> recording_id t \<in> set (map te_id (added (all_tracks d) (set (map te_id (tracks_of db g)))))"
    unfolding set_ids_added using assms by blast
  then show ?thesis by (auto simp: tracks_of_merge_release)
qed

lemma find_append:
  "find P (xs @ ys) = (case find P xs of None \<Rightarrow> find P ys | Some x \<Rightarrow> Some x)"
  by (induction xs) auto

lemma find_absent_id: "i \<notin> set (map te_id ts) \<Longrightarrow> find (\<lambda>x. te_id x = i) ts = None"
  by (induction ts) auto

lemma find_present_id:
  "e \<in> set ts \<Longrightarrow> \<exists>x. find (\<lambda>x. te_id x = te_id e) ts = Some x"
  by (induction ts) auto

lemma find_known_entry:
  assumes "e \<in> set old"
  shows "find (\<lambda>x. te_id x = te_id e) (old @ new) = find (\<lambda>x. te_id x = te_id e) old"
proof -
  from assms obtain x where "find (\<lambda>x. te_id x = te_id e) old = Some x"
    using find_present_id by blast
  then show ?thesis by (simp add: find_append)
qed

lemma find_new_entry:
  assumes "r \<noteq> []" "Some r \<notin> set (map te_id (tracks_of db g))"
  shows "find (\<lambda>x. te_id x = Some r) (tracks_of (merge_release db g rel d) g)
       = map_option new_entry (find (\<lambda>t. recording_id t = Some r) (all_tracks d))"
proof -
  from assms(2) have "find (\<lambda>x. te_id x = Some r) (tracks_of db g) = None"
    by (rule find_absent_id)
  then show ?thesis using assms by (simp add: tracks_of_merge_release find_append find_added)
qed

lemmas sample_defs =
  track_of_def details_of_def release_of_def first_release_def first_details_def
  second_release_def second_details_def

lemmas merge_defs =
  merge_release_def fold_record_def get_or_create_def set_image_def new_record_def
  get_release_group_def get_front_def get_media_def get_tracks_def get_recording_def
  new_entry_def duration_of_def or_int_def image_url_of_def Let_def

lemma db_after_first_eq:
  "db_after_first =
     [(''rg-low'',
       \<lparr>rg_title = Some ''Low'', rg_type = Some ''Album'', rg_track_count = 2,
        rg_image_url = None,
        rg_tracks =
          [\<lparr>te_id = Some ''rec-1'', te_title = Some ''Speed of Life'',
            te_duration_ms = Some 167000\<rparr>,
           \<lparr>te_id = Some ''rec-2'', te_title = Some ''Breaking Glass'',
            te_duration_ms = Some 112000\<rparr>]\<rparr>)]"
  by (simp add: db_after_first_def sample_defs merge_defs)

lemma db_after_second_eq:
  "merge_release db_after_first ''rg-low'' second_release second_details =
     [(''rg-low'',
       \<lparr>rg_title = Some ''Low'', rg_type = Some ''Album'', rg_track_count = 2,
        rg_image_url = Some ''https://coverartarchive.org/release/rel-2/front-250'',
        rg_tracks =
          [\<lparr>te_id = Some ''rec-1'', te_title = Some ''Speed of Life'',
            te_duration_ms = Some 167000\<rparr>,
           \<lparr>te_id = Some ''rec-2'', te_title = Some ''Breaking Glass'',
            te_duration_ms = Some 112000\<rparr>,
           \<lparr>te_id = Some ''rec-3'', te_title = Some ''What in the World'',
            te_duration_ms = Some 143000\<rparr>]\<rparr>)]"
  by (simp add: db_after_first_eq sample_defs merge_defs)

text \<open>
  C2. For every database and every release with its detail, folding the release a second
  time changes nothing: the database after two folds is the database after one, and so
  is the record of the group (its track list, its image URL and its track count).
\<close>

theorem C2_merge_idempotent:
  "merge_release (merge_release db g rel d) g rel d = merge_release db g rel d
   \<and> fold_record (Some (fold_record old rel d)) rel d = fold_record old rel d"
proof -
  have "merge_release (merge_release db g rel d) g rel d
      = AList.update g (fold_record (Some (fold_record (map_of db g) rel d)) rel d)
          (AList.update g (fold_record (map_of db g) rel d) db)"
    by (simp add: merge_release_def update_conv')
  also have "\<dots> = merge_release db g rel d"
    by (simp add: fold_record_idem merge_release_def)
  finally show ?thesis by (simp add: fold_record_idem)
qed

theorem C2_merge_idempotent_witness:
  "merge_release (merge_release db_after_first ''rg-low'' second_release second_details)
     ''rg-low'' second_release second_details
   = [(''rg-low'',
       \<lparr>rg_title = Some ''Low'', rg_type = Some ''Album'', rg_track_count = 2,
        rg_image_url = Some ''https://coverartarchive.org/release/rel-2/front-250'',
        rg_tracks =
          [\<lparr>te_id = Some ''rec-1'', te_title = Some ''Speed of Life'',
            te_duration_ms = Some 167000\<rparr>,
           \<lparr>te_id = Some ''rec-2'', te_title = Some ''Breaking Glass'',
            te_duration_ms = Some 112000\<rparr>,
           \<lparr>te_id = Some ''rec-3'', te_title = Some ''What in the World'',
            te_duration_ms = Some 143000\<rparr>]\<rparr>)]"
  using C2_merge_idempotent [of db_after_first "''rg-low''" second_release second_details None]
  by (simp add: db_after_second_eq)

text \<open>
  C1. Track ids are unique within every group, and every fold keeps them so: a fold of
  the Merge/Dedup Engine preserves the invariant, and so does the whole detail phase.
  A database built from an empty one satisfies it.
  A fold only appends to the group's track list (the list before is a prefix of the
  list after), so an entry already there is never modified: looking an id up finds the
  same entry as before. Every non-empty recording id of the folded release occurs
  exactly once afterwards, and an id that was not there yet gets the entry made from
  its first sighting in this release. With two releases of one group folded one after
  the other, a shared recording id thus keeps the title and duration of the first
  release.
\<close>

theorem C1_track_ids_unique_first_sighting_wins:
  "(unique_track_ids db \<longrightarrow> unique_track_ids (merge_release db g rel d))
   \<and> (unique_track_ids (final_db s) \<longrightarrow> unique_track_ids (final_db (detail_phase xs s)))
   \<and> unique_track_ids (final_db (detail_phase xs (start_state [] ids)))
   \<and> prefix (tracks_of db g) (tracks_of (merge_release db g rel d) g)
   \<and> (distinct (map te_id (tracks_of db g)) \<longrightarrow>
        (\<forall>t \<in> set (all_tracks d). truthy_str (recording_id t) \<longrightarrow>
           count_list (map te_id (tracks_of (merge_release db g rel d) g)) (recording_id t) = 1))
   \<and> (\<forall>e \<in> set (tracks_of db g).
         find (\<lambda>x. te_id x = te_id e) (tracks_of (merge_release db g rel d) g)
         = find (\<lambda>x. te_id x = te_id e) (tracks_of db g))
   \<and> (\<forall>r. r \<noteq> [] \<and> Some r \<notin> set (map te_id (tracks_of db g)) \<longrightarrow>
         find (\<lambda>x. te_id x = Some r) (tracks_of (merge_release db g rel d) g)
         = map_option new_entry (find (\<lambda>t. recording_id t = Some r) (all_tracks d)))"
proof (intro conjI)
  show "unique_track_ids db \<longrightarrow> unique_track_ids (merge_release db g rel d)"
    by (simp add: unique_merge_release)
  show "unique_track_ids (final_db s) \<longrightarrow> unique_track_ids (final_db (detail_phase xs s))"
    by (simp add: unique_detail_phase)
  show "unique_track_ids (final_db (detail_phase xs (start_state [] ids)))"
    by (rule unique_detail_phase) (simp add: start_state_def unique_track_ids_def)
  show "prefix (tracks_of db g) (tracks_of (merge_release db g rel d) g)"
    by (simp add: tracks_of_merge_release)
  show "distinct (map te_id (tracks_of db g)) \<longrightarrow>
        (\<forall>t \<in> set (all_tracks d). truthy_str (recording_id t) \<longrightarrow>
           count_list (map te_id (tracks_of (merge_release db g rel d) g)) (recording_id t) = 1)"
  proof (intro impI ballI)
    fix t
    assume "distinct (map te_id (tracks_of db g))" "t \<in> set (all_tracks d)"
      "truthy_str (recording_id t)"
    then show "count_list (map te_id (tracks_of (merge_release db g rel d) g)) (recording_id t) = 1"
      by (intro count_list_distinct distinct_ids_merged sighted_id_merged)
  qed
  show "\<forall>e \<in> set (tracks_of db g).
         find (\<lambda>x. te_id x = te_id e) (tracks_of (merge_release db g rel d) g)
         = find (\<lambda>x. te_id x = te_id e) (tracks_of db g)"
    by (simp add: tracks_of_merge_release find_known_entry)
  show "\<forall>r. r \<noteq> [] \<and> Some r \<notin> set (map te_id (tracks_of db g)) \<longrightarrow>
         find (\<lambda>x. te_id x = Some r) (tracks_of (merge_release db g rel d) g)
         = map_option new_entry (find (\<lambda>t. recording_id t = Some r) (all_tracks d))"
    using find_new_entry [of _ db g rel d] by blast
qed

theorem C1_two_releases_witness:
  "unique_track_ids db_after_first
   \<and> unique_track_ids (merge_release db_after_first ''rg-low'' second_release second_details)
   \<and> unique_track_ids
       (final_db (detail_phase
          [(first_release, Some first_details), (second_release, Some second_details)]
          (start_state [] {})))
   \<and> map te_id (tracks_of (merge_release db_after_first ''rg-low'' second_release second_details)
        ''rg-low'')
     = [Some ''rec-1'', Some ''rec-2'', Some ''rec-3'']
   \<and> count_list
       (map te_id (tracks_of (merge_release db_after_first ''rg-low'' second_release second_details)
          ''rg-low''))
       (Some ''rec-2'') = 1
   \<and> find (\<lambda>x. te_id x = Some ''rec-2'')
        (tracks_of (merge_release db_after_first ''rg-low'' second_release second_details)
          ''rg-low'')
     = Some \<lparr>te_id = Some ''rec-2'', te_title = Some ''Breaking Glass'',
             te_duration_ms = Some 112000\<rparr>
   \<and> find (\<lambda>x. te_id x = Some ''rec-3'')
        (tracks_of (merge_release db_after_first ''rg-low'' second_release second_details)
          ''rg-low'')
     = Some \<lparr>te_id = Some ''rec-3'', te_title = Some ''What in the World'',
             te_duration_ms = Some 143000\<rparr>"
proof -
  let ?db2 = "merge_release db_after_first ''rg-low'' second_release second_details"
  let ?e = "\<lparr>te_id = Some ''rec-2'', te_title = Some ''Breaking Glass'',
             te_duration_ms = Some 112000\<rparr>"
  let ?t = "track_of ''rec-2'' ''Breaking Glass (2017 remaster)'' 113000"
  let ?run = "[(first_release, Some first_details), (second_release, Some second_details)]"
  note c = C1_track_ids_unique_first_sighting_wins
      [of db_after_first "''rg-low''" second_release second_details "start_state [] {}" ?run "{}"]
  have u: "unique_track_ids db_after_first"
    by (simp add: unique_track_ids_def db_after_first_eq)
  from c u have a: "unique_track_ids ?db2" by blast
  have "unique_track_ids (final_db (start_state [] {}))"
    by (simp add: start_state_def unique_track_ids_def)
  with c have r: "unique_track_ids (final_db (detail_phase ?run (start_state [] {})))"
    by blast
  have e: "?e \<in> set (tracks_of db_after_first ''rg-low'')"
    by (simp add: tracks_of_def db_after_first_eq)
  with c have "find (\<lambda>x. te_id x = te_id ?e) (tracks_of ?db2 ''rg-low'')
      = find (\<lambda>x. te_id x = te_id ?e) (tracks_of db_after_first ''rg-low'')"
    by blast
  then have b: "find (\<lambda>x. te_id x = Some ''rec-2'') (tracks_of ?db2 ''rg-low'') = Some ?e"
    by (simp add: tracks_of_def db_after_first_eq)
  have "distinct (map te_id (tracks_of db_after_first ''rg-low''))"
    "?t \<in> set (all_tracks second_details)" "truthy_str (recording_id ?t)"
    by (simp_all add: tracks_of_def db_after_first_eq all_tracks_def sample_defs
        get_media_def get_tracks_def recording_id_def get_recording_def)
  with c have "count_list (map te_id (tracks_of ?db2 ''rg-low'')) (recording_id ?t) = 1"
    by blast
  then have n: "count_list (map te_id (tracks_of ?db2 ''rg-low'')) (Some ''rec-2'') = 1"
    by (simp add: recording_id_def get_recording_def track_of_def)
  have "''rec-3'' \<noteq> [] \<and> Some ''rec-3'' \<notin> set (map te_id (tracks_of db_after_first ''rg-low''))"
    by (simp add: tracks_of_def db_after_first_eq)
  with c have "find (\<lambda>x. te_id x = Some ''rec-3'') (tracks_of ?db2 ''rg-low'')
      = map_option new_entry
          (find (\<lambda>t. recording_id t = Some ''rec-3'') (all_tracks second_details))"
    by blast
  then have f: "find (\<lambda>x. te_id x = Some ''rec-3'') (tracks_of ?db2 ''rg-low'')
      = Some \<lparr>te_id = Some ''rec-3'', te_title = Some ''What in the World'',
             te_duration_ms = Some 143000\<rparr>"
    by (simp add: all_tracks_def sample_defs get_media_def get_tracks_def recording_id_def
        get_recording_def new_entry_def duration_of_def or_int_def)
  have d: "map te_id (tracks_of ?db2 ''rg-low'')
      = [Some ''rec-1'', Some ''rec-2'', Some ''rec-3'']"
    by (simp add: tracks_of_def db_after_second_eq)
  from u a r b n f d show ?thesis by simp
qed

section \<open>The detail phase\<close>

lemma detail_step_skipped:
  "\<not> attempted rel s \<Longrightarrow> detail_step (rel, out) s = s"
  by (cases "rgp_id (get_release_group rel)") (auto simp: detail_step_def attempted_def)

lemma detail_step_failed:
  "attempted rel s \<Longrightarrow> \<not> truthy_details out \<Longrightarrow>
   detail_step (rel, out) s
   = s\<lparr>processed_this_run := processed_this_run s + 1,
       fetch_calls := fetch_calls s @ [rel_id rel]\<rparr>"
  by (cases "rgp_id (get_release_group rel)"; cases out)
     (auto simp: detail_step_def attempted_def Let_def)

lemma detail_step_succeeded:
  assumes "attempted rel s" "truthy_details out"
  shows "\<exists>g d. rgp_id (get_release_group rel) = Some g \<and> out = Some d \<and>
     detail_step (rel, out) s
     = (let s2 = s\<lparr>processed_this_run := processed_this_run s + 1,
                    fetch_calls := fetch_calls s @ [rel_id rel],
                    final_db := merge_release (final_db s) g rel d,
                    processed_rel_ids := insert (rel_id rel) (processed_rel_ids s)\<rparr>
        in if (processed_this_run s + 1) mod 10 = 0 then checkpoint s2 else s2)"
  using assms
  by (cases "rgp_id (get_release_group rel)"; cases out)
     (auto simp: detail_step_def attempted_def Let_def)

lemma detail_step_succeeded_fields:
  assumes "attempted rel s" "truthy_details out"
  shows "processed_rel_ids (detail_step (rel, out) s) = insert (rel_id rel) (processed_rel_ids s)"
    and "fetch_calls (detail_step (rel, out) s) = fetch_calls s @ [rel_id rel]"
    and "processed_this_run (detail_step (rel, out) s) = processed_this_run s + 1"
    and "checkpoints (detail_step (rel, out) s)
         = (if (processed_this_run s + 1) mod 10 = 0
            then checkpoints s
                 @ [(final_db (detail_step (rel, out) s),
                     processed_rel_ids (detail_step (rel, out) s))]
            else checkpoints s)"
proof -
  from detail_step_succeeded [OF assms] obtain g d where
    "detail_step (rel, out) s
     = (let s2 = s\<lparr>processed_this_run := processed_this_run s + 1,
                    fetch_calls := fetch_calls s @ [rel_id rel],
                    final_db := merge_release (final_db s) g rel d,
                    processed_rel_ids := insert (rel_id rel) (processed_rel_ids s)\<rparr>
        in if (processed_this_run s + 1) mod 10 = 0 then checkpoint s2 else s2)"
    by blast
  then show
    "processed_rel_ids (detail_step (rel, out) s) = insert (rel_id rel) (processed_rel_ids s)"
    "fetch_calls (detail_step (rel, out) s) = fetch_calls s @ [rel_id rel]"
    "processed_this_run (detail_step (rel, out) s) = processed_this_run s + 1"
    "checkpoints (detail_step (rel, out) s)
         = (if (processed_this_run s + 1) mod 10 = 0
            then checkpoints s
                 @ [(final_db (detail_step (rel, out) s),
                     processed_rel_ids (detail_step (rel, out) s))]
            else checkpoints s)"
    by (simp_all add: Let_def checkpoint_def)
qed

lemma processed_detail_step:
  "processed_rel_ids (detail_step (rel, out) s)
   = (if attempted rel s \<and> truthy_details out
      then insert (rel_id rel) (processed_rel_ids s) else processed_rel_ids s)"
  by (cases "attempted rel s"; cases "truthy_details out")
     (simp_all add: detail_step_skipped detail_step_failed detail_step_succeeded_fields)

lemma fetch_calls_detail_step:
  "fetch_calls (detail_step (rel, out) s)
   = (if attempted rel s then fetch_calls s @ [rel_id rel] else fetch_calls s)"
  by (cases "attempted rel s"; cases "truthy_details out")
     (simp_all add: detail_step_skipped detail_step_failed detail_step_succeeded_fields)

lemma counter_detail_step:
  "processed_this_run (detail_step (rel, out) s)
   = (if attempted rel s then processed_this_run s + 1 else processed_this_run s)"
  by (cases "attempted rel s"; cases "truthy_details out")
     (simp_all add: detail_step_skipped detail_step_failed detail_step_succeeded_fields)

lemma checkpoints_detail_step:
  "checkpoints (detail_step (rel, out) s)
   = (if attempted rel s \<and> truthy_details out \<and> (processed_this_run s + 1) mod 10 = 0
      then checkpoints s
           @ [(final_db (detail_step (rel, out) s), processed_rel_ids (detail_step (rel, out) s))]
      else checkpoints s)"
  by (cases "attempted rel s"; cases "truthy_details out")
     (simp_all add: detail_step_skipped detail_step_failed detail_step_succeeded_fields)

lemma detail_phase_Cons [simp]:
  "detail_phase (x # xs) s = detail_phase xs (detail_step x s)"
  "detail_phase [] s = s"
  by (simp_all add: detail_phase_def)

lemma processed_detail_phase:
  "processed_rel_ids (detail_phase xs s)
   = processed_rel_ids s
     \<union> {rel_id rel |rel out. (rel, out) \<in> set xs
          \<and> truthy_str (rgp_id (get_release_group rel)) \<and> truthy_details out}"
proof (induction xs arbitrary: s)
  case Nil
  then show ?case by simp
next
  case (Cons x xs)
  obtain rel out where x: "x = (rel, out)" by (cases x)
  let ?S = "\<lambda>ys. {rel_id rel |rel out. (rel, out) \<in> set ys
          \<and> truthy_str (rgp_id (get_release_group rel)) \<and> truthy_details out}"
  have split: "?S (x # xs)
      = (if truthy_str (rgp_id (get_release_group rel)) \<and> truthy_details out
         then {rel_id rel} else {}) \<union> ?S xs"
    unfolding x by auto
  have "processed_rel_ids (detail_phase (x # xs) s)
      = processed_rel_ids (detail_step (rel, out) s) \<union> ?S xs"
    using Cons.IH [of "detail_step x s"] by (simp add: x)
  also have "\<dots> = processed_rel_ids s \<union> ?S (x # xs)"
    unfolding split processed_detail_step attempted_def by auto
  finally show ?case .
qed

text \<open>
  C3. In the detail phase a release id is added to the processed set exactly when it was
  not there yet, the release carries a release-group id and the detail fetch gave a
  result (one \<^verbatim>\<open>if not details\<close> lets through). A release whose id is already
  processed, and a release without a release-group id, leave the whole state as it is:
  nothing is fetched and nothing is marked. A release whose fetch fails is fetched and
  not marked. The processed set never loses an element: after the phase it is the set
  from before together with the ids of the releases that had a release-group id and a
  fetched detail.
\<close>

theorem C3_processed_set_grows_on_success:
  "(rel_id rel \<in> processed_rel_ids s \<longrightarrow> detail_step (rel, out) s = s)
   \<and> (\<not> truthy_str (rgp_id (get_release_group rel)) \<longrightarrow> detail_step (rel, out) s = s)
   \<and> processed_rel_ids (detail_step (rel, out) s)
       = (if rel_id rel \<notin> processed_rel_ids s
             \<and> truthy_str (rgp_id (get_release_group rel)) \<and> truthy_details out
          then insert (rel_id rel) (processed_rel_ids s) else processed_rel_ids s)
   \<and> fetch_calls (detail_step (rel, out) s)
       = (if rel_id rel \<notin> processed_rel_ids s \<and> truthy_str (rgp_id (get_release_group rel))
          then fetch_calls s @ [rel_id rel] else fetch_calls s)
   \<and> processed_rel_ids s \<subseteq> processed_rel_ids (detail_phase xs s)
   \<and> processed_rel_ids (detail_phase xs s)
       = processed_rel_ids s
         \<union> {rel_id rel |rel out. (rel, out) \<in> set xs
              \<and> truthy_str (rgp_id (get_release_group rel)) \<and> truthy_details out}"
proof (intro conjI)
  show "rel_id rel \<in> processed_rel_ids s \<longrightarrow> detail_step (rel, out) s = s"
    by (simp add: detail_step_skipped attempted_def)
  show "\<not> truthy_str (rgp_id (get_release_group rel)) \<longrightarrow> detail_step (rel, out) s = s"
    by (simp add: detail_step_skipped attempted_def)
  show "processed_rel_ids (detail_step (rel, out) s)
       = (if rel_id rel \<notin> processed_rel_ids s
             \<and> truthy_str (rgp_id (get_release_group rel)) \<and> truthy_details out
          then insert (rel_id rel) (processed_rel_ids s) else processed_rel_ids s)"
    by (simp add: processed_detail_step attempted_def)
  show "fetch_calls (detail_step (rel, out) s)
       = (if rel_id rel \<notin> processed_rel_ids s \<and> truthy_str (rgp_id (get_release_group rel))
          then fetch_calls s @ [rel_id rel] else fetch_calls s)"
    by (simp add: fetch_calls_detail_step attempted_def)
  show "processed_rel_ids s \<subseteq> processed_rel_ids (detail_phase xs s)"
    unfolding processed_detail_phase by blast
  show "processed_rel_ids (detail_phase xs s)
       = processed_rel_ids s
         \<union> {rel_id rel |rel out. (rel, out) \<in> set xs
              \<and> truthy_str (rgp_id (get_release_group rel)) \<and> truthy_details out}"
    by (rule processed_detail_phase)
qed

theorem C3_four_releases_witness:
  "detail_step (fetched_release ''rel-0'') (start_state [] {''rel-0''})
     = start_state [] {''rel-0''}
   \<and> detail_step (orphan_release ''rel-9'') (start_state [] {''rel-0''})
     = start_state [] {''rel-0''}
   \<and> processed_rel_ids (detail_step (failed_release ''rel-1'') (start_state [] {''rel-0''}))
     = {''rel-0''}
   \<and> fetch_calls (detail_step (failed_release ''rel-1'') (start_state [] {''rel-0''}))
     = [''rel-1'']
   \<and> processed_rel_ids (detail_step (fetched_release ''rel-2'') (start_state [] {''rel-0''}))
     = {''rel-0'', ''rel-2''}
   \<and> processed_rel_ids
       (detail_phase
         [fetched_release ''rel-0'', orphan_release ''rel-9'', failed_release ''rel-1'',
          fetched_release ''rel-2'']
         (start_state [] {''rel-0''}))
     = {''rel-0'', ''rel-2''}"
proof -
  let ?s = "start_state [] {''rel-0''}"
  let ?d = "Some (details_of [])"
  have a: "detail_step (fetched_release ''rel-0'') ?s = ?s"
    using C3_processed_set_grows_on_success [of "release_of ''rel-0'' ''Low'' ''rg-low'' False" ?s ?d "[]"]
    by (simp add: fetched_release_def release_of_def start_state_def)
  have b: "detail_step (orphan_release ''rel-9'') ?s = ?s"
    using C3_processed_set_grows_on_success [of "fst (orphan_release ''rel-9'')" ?s ?d "[]"]
    by (simp add: orphan_release_def get_release_group_def)
  have c: "processed_rel_ids (detail_step (failed_release ''rel-1'') ?s) = {''rel-0''}
      \<and> fetch_calls (detail_step (failed_release ''rel-1'') ?s) = [''rel-1'']"
    using C3_processed_set_grows_on_success [of "release_of ''rel-1'' ''Low'' ''rg-low'' False" ?s None "[]"]
    by (simp add: failed_release_def release_of_def start_state_def get_release_group_def)
  have d: "processed_rel_ids (detail_step (fetched_release ''rel-2'') ?s)
      = {''rel-0'', ''rel-2''}"
    using C3_processed_set_grows_on_success [of "release_of ''rel-2'' ''Low'' ''rg-low'' False" ?s ?d "[]"]
    by (auto simp: fetched_release_def release_of_def start_state_def get_release_group_def
        details_of_def)
  have e: "processed_rel_ids
       (detail_phase
         [fetched_release ''rel-0'', orphan_release ''rel-9'', failed_release ''rel-1'',
          fetched_release ''rel-2'']
         ?s)
     = {''rel-0'', ''rel-2''}"
    using a b
    by (simp add: failed_release_def fetched_release_def start_state_def
     release_of_def details_of_def detail_step_def get_release_group_def Let_def checkpoint_def insert_commute)
  from a b c d e show ?thesis by simp
qed

lemma div_10_step:
  "Suc n div 10 = (if Suc n mod 10 = 0 then Suc (n div 10) else n div 10)"
  by presburger

lemma checkpoints_bound_step:
  assumes "length (checkpoints s) \<le> processed_this_run s div 10"
  shows "length (checkpoints (detail_step (rel, out) s))
       \<le> processed_this_run (detail_step (rel, out) s) div 10"
proof -
  have "n div 10 \<le> (n + 1) div 10" for n :: nat
    by (rule div_le_mono) simp
  with assms show ?thesis
    unfolding checkpoints_detail_step counter_detail_step
    by (auto simp: div_10_step elim: le_trans)
qed

lemma checkpoints_bound:
  "length (checkpoints s) \<le> processed_this_run s div 10 \<Longrightarrow>
   length (checkpoints (detail_phase xs s)) \<le> processed_this_run (detail_phase xs s) div 10"
proof (induction xs arbitrary: s)
  case Nil
  then show ?case by simp
next
  case (Cons x xs)
  obtain rel out where x: "x = (rel, out)" by (cases x)
  show ?case
    using Cons.IH [of "detail_step x s"] checkpoints_bound_step [OF Cons.prems, of rel out]
    by (simp add: x)
qed

lemma steady_step:
  assumes st: "steady ids s" and ok: "truthy_details out"
  shows "steady ids (detail_step (rel, out) s)"
proof (cases "attempted rel s")
  case False
  with st show ?thesis by (simp add: detail_step_skipped)
next
  case True
  let ?s' = "detail_step (rel, out) s"
  let ?P = "processed_rel_ids s"
  from st have sub: "ids \<subseteq> ?P" and fin: "finite (?P - ids)"
    and cnt: "processed_this_run s = card (?P - ids)"
    and len: "length (checkpoints s) = processed_this_run s div 10"
    and old: "\<forall>k < length (checkpoints s). card (snd (checkpoints s ! k) - ids) = 10 * (k + 1)"
    by (simp_all add: steady_def)
  from True have new: "rel_id rel \<notin> ?P" by (simp add: attempted_def)
  with sub have notin: "rel_id rel \<notin> ids" by blast
  have P': "processed_rel_ids ?s' = insert (rel_id rel) ?P"
    using True ok by (simp add: processed_detail_step)
  have diff: "processed_rel_ids ?s' - ids = insert (rel_id rel) (?P - ids)"
    unfolding P' using notin by blast
  have c': "processed_this_run ?s' = processed_this_run s + 1"
    using True by (simp add: counter_detail_step)
  have card': "card (processed_rel_ids ?s' - ids) = processed_this_run s + 1"
    unfolding diff using fin new cnt by simp
  have cps: "checkpoints ?s'
      = (if (processed_this_run s + 1) mod 10 = 0
         then checkpoints s @ [(final_db ?s', processed_rel_ids ?s')] else checkpoints s)"
    using True ok by (simp add: checkpoints_detail_step)
  have len': "length (checkpoints ?s') = processed_this_run ?s' div 10"
    unfolding c' cps using len by (simp add: div_10_step)
  have spans: "card (snd (checkpoints ?s' ! k) - ids) = 10 * (k + 1)"
    if "k < length (checkpoints ?s')" for k
  proof (cases "k < length (checkpoints s)")
    case True
    then have "checkpoints ?s' ! k = checkpoints s ! k"
      unfolding cps by (simp add: nth_append)
    with True old show ?thesis by simp
  next
    case False
    with that have ten: "(processed_this_run s + 1) mod 10 = 0" and k: "k = length (checkpoints s)"
      unfolding cps by (auto split: if_splits)
    then have "checkpoints ?s' ! k = (final_db ?s', processed_rel_ids ?s')"
      unfolding cps by simp
    moreover have "processed_this_run s + 1 = 10 * (k + 1)"
      using ten len k by presburger
    ultimately show ?thesis using card' by simp
  qed
  show ?thesis
    unfolding steady_def
    using sub fin P' diff c' card' len' spans by auto
qed

lemma steady_detail_phase:
  "steady ids s \<Longrightarrow> \<forall>(rel, out) \<in> set xs. truthy_details out \<Longrightarrow>
   steady ids (detail_phase xs s)"
proof (induction xs arbitrary: s)
  case Nil
  then show ?case by simp
next
  case (Cons x xs)
  obtain rel out where x: "x = (rel, out)" by (cases x)
  from Cons.prems have "steady ids (detail_step x s)"
    unfolding x by (intro steady_step) auto
  with Cons.prems(2) show ?case by (simp add: Cons.IH)
qed

lemma steady_start: "steady ids (start_state db ids)"
  by (simp add: steady_def start_state_def)

text \<open>
  \<^verbatim>\<open>processed_this_run\<close> counts the releases the loop attempts. One step adds a
  checkpoint only after a successful release, while that counter is a multiple of 10; so
  a run writes at most one periodic checkpoint for every ten attempts. When no fetch
  fails the counter is the number of releases processed in the run, there is exactly
  one periodic checkpoint for every ten of them and the \<open>k\<close>-th one is written when
  \<open>10 * k\<close> releases have been processed.
\<close>

lemma checkpoints_follow_counter:
  "processed_this_run (detail_step (rel, out) s)
     = (if attempted rel s then processed_this_run s + 1 else processed_this_run s)
   \<and> checkpoints (detail_step (rel, out) s)
     = (if attempted rel s \<and> truthy_details out \<and> (processed_this_run s + 1) mod 10 = 0
        then checkpoints s
             @ [(final_db (detail_step (rel, out) s), processed_rel_ids (detail_step (rel, out) s))]
        else checkpoints s)
   \<and> length (checkpoints (detail_phase xs (start_state db ids)))
       \<le> processed_this_run (detail_phase xs (start_state db ids)) div 10
   \<and> ((\<forall>(rel, out) \<in> set xs. truthy_details out) \<longrightarrow>
        steady ids (detail_phase xs (start_state db ids)))
   \<and> get_all_recordings db ids xs
     = (detail_phase xs (start_state db ids),
        final_db (detail_phase xs (start_state db ids)),
        processed_rel_ids (detail_phase xs (start_state db ids)))"
proof (intro conjI)
  show "processed_this_run (detail_step (rel, out) s)
     = (if attempted rel s then processed_this_run s + 1 else processed_this_run s)"
    by (rule counter_detail_step)
  show "checkpoints (detail_step (rel, out) s)
     = (if attempted rel s \<and> truthy_details out \<and> (processed_this_run s + 1) mod 10 = 0
        then checkpoints s
             @ [(final_db (detail_step (rel, out) s), processed_rel_ids (detail_step (rel, out) s))]
        else checkpoints s)"
    by (rule checkpoints_detail_step)
  show "length (checkpoints (detail_phase xs (start_state db ids)))
       \<le> processed_this_run (detail_phase xs (start_state db ids)) div 10"
    by (rule checkpoints_bound) (simp add: start_state_def)
  show "(\<forall>(rel, out) \<in> set xs. truthy_details out) \<longrightarrow>
        steady ids (detail_phase xs (start_state db ids))"
    using steady_detail_phase [OF steady_start] by blast
  show "get_all_recordings db ids xs
     = (detail_phase xs (start_state db ids),
        final_db (detail_phase xs (start_state db ids)),
        processed_rel_ids (detail_phase xs (start_state db ids)))"
    by (simp add: get_all_recordings_def Let_def)
qed

lemma inj_numbered_id: "inj numbered_id"
proof (rule injI)
  fix m n assume "numbered_id m = numbered_id n"
  then have "length (numbered_id m) = length (numbered_id n)" by simp
  then show "m = n" by (simp add: numbered_id_def)
qed

lemma run_150_all_fetched: "\<forall>(rel, out) \<in> set run_150. truthy_details out"
  by (auto simp: run_150_def fetched_release_def details_of_def)

lemma fetched_release_facts:
  "rel_id (fst (fetched_release r)) = r"
  "truthy_str (rgp_id (get_release_group (fst (fetched_release r))))"
  "truthy_details (snd (fetched_release r))"
  by (simp_all add: fetched_release_def release_of_def details_of_def get_release_group_def)

lemma run_150_processed:
  "processed_rel_ids (detail_phase run_150 (start_state [] {})) = numbered_id ` {0..<150}"
proof -
  have "{rel_id rel |rel out. (rel, out) \<in> set run_150
          \<and> truthy_str (rgp_id (get_release_group rel)) \<and> truthy_details out}
      = numbered_id ` {0..<150}" (is "?L = ?R")
  proof
    show "?L \<subseteq> ?R"
    proof
      fix x assume "x \<in> ?L"
      then obtain rel out where "(rel, out) \<in> set run_150" "x = rel_id rel" by blast
      then obtain n where "n < 150" "(rel, out) = fetched_release (numbered_id n)"
        by (auto simp: run_150_def)
      with \<open>x = rel_id rel\<close> fetched_release_facts(1) [of "numbered_id n"]
      show "x \<in> ?R" by (metis atLeastLessThan_iff fst_conv imageI zero_le)
    qed
    show "?R \<subseteq> ?L"
    proof
      fix x assume "x \<in> ?R"
      then obtain n where n: "n < 150" "x = numbered_id n" by auto
      obtain rel out where ro: "fetched_release (numbered_id n) = (rel, out)"
        by (cases "fetched_release (numbered_id n)")
      from n(1) have "n \<in> set [0..<150]" by simp
      then have "(\<lambda>n. fetched_release (numbered_id n)) n
          \<in> (\<lambda>n. fetched_release (numbered_id n)) ` set [0..<150]"
        by (rule imageI)
      then have "fetched_release (numbered_id n) \<in> set run_150"
        unfolding run_150_def set_map .
      with ro have "(rel, out) \<in> set run_150" by simp
      moreover from ro fetched_release_facts [of "numbered_id n"]
      have "rel_id rel = x" "truthy_str (rgp_id (get_release_group rel))" "truthy_details out"
        using n by simp_all
      ultimately show "x \<in> ?L" by blast
    qed
  qed
  then show ?thesis
    unfolding processed_detail_phase by (simp add: start_state_def)
qed

lemma run_150_card:
  "card (processed_rel_ids (detail_phase run_150 (start_state [] {}))) = 150"
  unfolding run_150_processed using inj_numbered_id
  by (simp add: card_image inj_on_def)

text \<open>
  A run over 150 releases with no failed fetch processes all of them and writes 15
  periodic checkpoints, then the write at the end.
\<close>

lemma run_150_checkpoints:
  "length (checkpoints (fst (get_all_recordings [] {} run_150))) = 15
   \<and> card (processed_rel_ids (fst (get_all_recordings [] {} run_150))) = 150
   \<and> processed_this_run (fst (get_all_recordings [] {} run_150)) = 150
   \<and> snd (get_all_recordings [] {} run_150)
     = (final_db (detail_phase run_150 (start_state [] {})),
        processed_rel_ids (detail_phase run_150 (start_state [] {})))"
proof -
  note c = checkpoints_follow_counter [of _ _ "start_state [] {}" run_150 "[]" "{}"]
  from c run_150_all_fetched
  have "steady {} (detail_phase run_150 (start_state [] {}))" by blast
  then have "processed_this_run (detail_phase run_150 (start_state [] {})) = 150"
    and "length (checkpoints (detail_phase run_150 (start_state [] {}))) = 15"
    by (simp_all add: steady_def run_150_card)
  moreover from c have "get_all_recordings [] {} run_150
     = (detail_phase run_150 (start_state [] {}),
        final_db (detail_phase run_150 (start_state [] {})),
        processed_rel_ids (detail_phase run_150 (start_state [] {})))"
    by blast
  ultimately show ?thesis by (simp add: run_150_card)
qed

text \<open>
  C7 (where the code departs from it). The counter is incremented before the detail
  fetch and tested only after a successful one, so failed fetches shift or drop the
  periodic checkpoints. Of eleven releases of which only the tenth fetch fails, ten are
  processed successfully and no periodic checkpoint is written: the counter is 10 on the
  failed release and 11 on the next one. Of ten releases of which only the first fetch
  fails, a periodic checkpoint is written after the last one, with nine releases
  processed.
\<close>

theorem C7_checkpoints_shifted_by_failed_fetches:
  "checkpoints (detail_phase run_tenth_fails (start_state [] {})) = []
   \<and> card (processed_rel_ids (detail_phase run_tenth_fails (start_state [] {}))) = 10
   \<and> processed_this_run (detail_phase run_tenth_fails (start_state [] {})) = 11
   \<and> map (\<lambda>cp. card (snd cp))
        (checkpoints (detail_phase run_first_fails (start_state [] {}))) = [9]
   \<and> card (processed_rel_ids (detail_phase run_first_fails (start_state [] {}))) = 9"
  by (simp add: run_tenth_fails_def run_first_fails_def failed_release_def
      fetched_release_def start_state_def release_of_def details_of_def detail_step_def
      get_release_group_def Let_def checkpoint_def)

section \<open>The Name Index Builder\<close>

lemma name_track_skip:
  "\<not> (\<exists>r n. te_id t = Some r \<and> r \<noteq> [] \<and> te_title t = Some n \<and> n \<noteq> []) \<Longrightarrow>
   name_track g t nm = nm"
  by (cases "te_id t"; cases "te_title t") (auto simp: name_track_def)

lemma name_track_known:
  assumes "te_id t = Some r" "r \<noteq> []" "te_title t = Some n" "n \<noteq> []"
    and "(r, g) \<in> set (candidates nm (lower n))"
  shows "name_track g t nm = nm"
  using assms
  by (auto simp: name_track_def candidates_def Let_def update_conv' split: option.splits)

lemma name_track_new:
  assumes "te_id t = Some r" "r \<noteq> []" "te_title t = Some n" "n \<noteq> []"
    and "(r, g) \<notin> set (candidates nm (lower n))"
  shows "name_track g t nm
       = AList.update (lower n) (candidates nm (lower n) @ [(r, g)]) nm"
  using assms
  by (auto simp: name_track_def candidates_def Let_def update_conv' split: option.splits)

lemma candidates_update:
  "candidates (AList.update k v nm) k' = (if k' = k then v else candidates nm k')"
  by (simp add: candidates_def update_conv')

lemma candidates_name_track:
  "set (candidates (name_track g t nm) name)
   = set (candidates nm name) \<union> named_pairs g [t] name"
proof (cases "\<exists>r n. te_id t = Some r \<and> r \<noteq> [] \<and> te_title t = Some n \<and> n \<noteq> []")
  case False
  then have "named_pairs g [t] name = {}" by (auto simp: named_pairs_def)
  with False show ?thesis by (simp add: name_track_skip)
next
  case True
  then obtain r n where t: "te_id t = Some r" "r \<noteq> []" "te_title t = Some n" "n \<noteq> []"
    by blast
  then have np: "named_pairs g [t] name = (if lower n = name then {(r, g)} else {})"
    by (auto simp: named_pairs_def)
  show ?thesis
  proof (cases "(r, g) \<in> set (candidates nm (lower n))")
    case True
    with t np show ?thesis by (auto simp: name_track_known)
  next
    case False
    with t np show ?thesis by (auto simp: name_track_new candidates_update)
  qed
qed

lemma tidy_update:
  assumes "tidy nm" "distinct v"
  shows "tidy (AList.update k v nm)"
proof -
  have "set (AList.update k v nm) \<subseteq> insert (k, v) (set nm)"
    by (induction nm) auto
  with assms show ?thesis
    unfolding tidy_def by (auto simp: distinct_update)
qed

lemma tidy_candidates: "tidy nm \<Longrightarrow> distinct (candidates nm name)"
  by (auto simp: tidy_def candidates_def split: option.splits dest!: map_of_SomeD)

lemma tidy_name_track: "tidy nm \<Longrightarrow> tidy (name_track g t nm)"
proof (cases "\<exists>r n. te_id t = Some r \<and> r \<noteq> [] \<and> te_title t = Some n \<and> n \<noteq> []")
  case False
  assume "tidy nm"
  with False show ?thesis by (simp add: name_track_skip)
next
  case True
  assume tidy: "tidy nm"
  from True obtain r n where t: "te_id t = Some r" "r \<noteq> []" "te_title t = Some n" "n \<noteq> []"
    by blast
  show ?thesis
  proof (cases "(r, g) \<in> set (candidates nm (lower n))")
    case True
    with t tidy show ?thesis by (simp add: name_track_known)
  next
    case False
    with tidy_candidates [OF tidy, of "lower n"]
    have "distinct (candidates nm (lower n) @ [(r, g)])" by simp
    with t tidy False show ?thesis by (simp add: name_track_new tidy_update)
  qed
qed

lemma named_pairs_Cons:
  "named_pairs g (t # ts) name = named_pairs g [t] name \<union> named_pairs g ts name"
proof
  show "named_pairs g (t # ts) name \<subseteq> named_pairs g [t] name \<union> named_pairs g ts name"
    unfolding named_pairs_def by (simp only: set_simps) blast
  show "named_pairs g [t] name \<union> named_pairs g ts name \<subseteq> named_pairs g (t # ts) name"
    unfolding named_pairs_def by (simp only: set_simps) blast
qed

lemma candidates_fold_tracks:
  "set (candidates (fold (name_track g) ts nm) name)
   = set (candidates nm name) \<union> named_pairs g ts name"
proof (induction ts arbitrary: nm)
  case Nil
  then show ?case by (simp add: named_pairs_def)
next
  case (Cons t ts)
  show ?case
    using Cons.IH [of "name_track g t nm"]
    by (simp add: candidates_name_track named_pairs_Cons [of g t ts] Un_assoc)
qed

lemma tidy_fold_tracks: "tidy nm \<Longrightarrow> tidy (fold (name_track g) ts nm)"
  by (induction ts arbitrary: nm) (simp_all add: tidy_name_track)

lemma candidates_fold_groups:
  "set (candidates (fold name_group db nm) name)
   = set (candidates nm name) \<union> all_named_pairs db name"
proof (induction db arbitrary: nm)
  case Nil
  then show ?case by (simp add: all_named_pairs_def)
next
  case (Cons x db)
  obtain g d where x: "x = (g, d)" by (cases x)
  have "all_named_pairs (x # db) name
      = named_pairs g (rg_tracks d) name \<union> all_named_pairs db name"
    by (simp add: all_named_pairs_def x)
  then show ?case
    using Cons.IH [of "name_group x nm"]
    by (simp add: x name_group_def candidates_fold_tracks Un_assoc)
qed

lemma tidy_fold_groups: "tidy nm \<Longrightarrow> tidy (fold name_group db nm)"
proof (induction db arbitrary: nm)
  case Nil
  then show ?case by simp
next
  case (Cons x db)
  obtain g d where x: "x = (g, d)" by (cases x)
  from Cons.prems have "tidy (name_group x nm)"
    by (simp add: x name_group_def tidy_fold_tracks)
  then show ?case by (simp add: Cons.IH)
qed

lemma candidates_process_metadata:
  "set (candidates (process_metadata db) name) = all_named_pairs db name"
proof -
  have "candidates [] name = []" by (simp add: candidates_def)
  then show ?thesis
    unfolding process_metadata_def using candidates_fold_groups [of db "[]" name] by simp
qed

lemma tidy_process_metadata: "tidy (process_metadata db)"
proof -
  have "tidy []" by (simp add: tidy_def)
  then show ?thesis unfolding process_metadata_def by (rule tidy_fold_groups)
qed

lemma candidates_listed:
  "p \<in> set (candidates nm name) \<Longrightarrow> \<exists>entries. map_of nm name = Some entries \<and> candidates nm name = entries"
  by (cases "map_of nm name") (simp_all add: candidates_def)

lemma sighting_named:
  assumes "(g, d) \<in> set db" "t \<in> set (rg_tracks d)" "te_id t = Some r" "r \<noteq> []"
    "te_title t = Some n" "n \<noteq> []"
  shows "(r, g) \<in> all_named_pairs db (lower n)"
proof -
  from assms(2-6) have "(r, g) \<in> named_pairs g (rg_tracks d) (lower n)"
    unfolding named_pairs_def by blast
  with assms(1) show ?thesis unfolding all_named_pairs_def by blast
qed

text \<open>
  C10. After \<open>process_metadata\<close> has run over the database, for every release group and
  every track of it whose recording id and title are both set and not empty, the name
  map has a candidate list under the lower-cased title, and the pair of the recording
  id and the release-group id occurs in it exactly once. No candidate list holds a pair
  twice and no name is listed twice. The candidate list of a name holds exactly the
  pairs of the tracks with that lower-cased title, whatever their release group: pairs
  of different groups that share a name are in the same list.
\<close>

theorem C10_name_map_lists_each_pair_once:
  "(\<forall>g d t r n. (g, d) \<in> set db \<and> t \<in> set (rg_tracks d) \<and> te_id t = Some r \<and> r \<noteq> []
        \<and> te_title t = Some n \<and> n \<noteq> []
      \<longrightarrow> (\<exists>entries. map_of (process_metadata db) (lower n) = Some entries
             \<and> count_list entries (r, g) = 1))
   \<and> (\<forall>(name, entries) \<in> set (process_metadata db). distinct entries)
   \<and> distinct (map fst (process_metadata db))
   \<and> (\<forall>name. set (candidates (process_metadata db) name) = all_named_pairs db name)"
proof (intro conjI allI impI)
  fix g d t r n
  assume a: "(g, d) \<in> set db \<and> t \<in> set (rg_tracks d) \<and> te_id t = Some r \<and> r \<noteq> []
        \<and> te_title t = Some n \<and> n \<noteq> []"
  then have "(r, g) \<in> all_named_pairs db (lower n)" by (intro sighting_named) auto
  then have in_list: "(r, g) \<in> set (candidates (process_metadata db) (lower n))"
    by (simp add: candidates_process_metadata)
  then obtain entries where e: "map_of (process_metadata db) (lower n) = Some entries"
    "candidates (process_metadata db) (lower n) = entries"
    using candidates_listed by blast
  have "distinct (candidates (process_metadata db) (lower n))"
    using tidy_process_metadata by (rule tidy_candidates)
  with in_list e have "count_list entries (r, g) = 1" by (simp add: count_list_distinct)
  with e show "\<exists>entries. map_of (process_metadata db) (lower n) = Some entries
             \<and> count_list entries (r, g) = 1" by blast
next
  show "\<forall>(name, entries) \<in> set (process_metadata db). distinct entries"
    using tidy_process_metadata [of db] by (simp add: tidy_def)
  show "distinct (map fst (process_metadata db))"
    using tidy_process_metadata [of db] by (simp add: tidy_def)
  fix name
  show "set (candidates (process_metadata db) name) = all_named_pairs db name"
    by (rule candidates_process_metadata)
qed

lemmas sample_db_defs =
  sample_db_def live_group_def low_group_def entry_of_def titled_def

lemma name_map_sample_db:
  "process_metadata sample_db
   = [(''warszawa'', [(''rec-warszawa'', ''rg-live''), (''rec-warszawa'', ''rg-low'')]),
      (''intro'', [(''rec-intro'', ''rg-live'')]),
      (''sound and vision'', [(''rec-sound'', ''rg-low'')])]"
  by (simp add: process_metadata_def name_group_def name_track_def sample_db_defs
      lower_def lower_char_def Let_def)

theorem C10_sample_db_witness:
  "map_of (process_metadata sample_db) ''warszawa''
     = Some [(''rec-warszawa'', ''rg-live''), (''rec-warszawa'', ''rg-low'')]
   \<and> distinct [(''rec-warszawa'', ''rg-live''), (''rec-warszawa'', ''rg-low'')]
   \<and> count_list (candidates (process_metadata sample_db) ''warszawa'')
       (''rec-warszawa'', ''rg-low'') = 1
   \<and> count_list (candidates (process_metadata sample_db) ''warszawa'')
       (''rec-warszawa'', ''rg-live'') = 1"
proof -
  let ?t = "entry_of ''rec-warszawa'' ''Warszawa'' 370000"
  let ?u = "entry_of ''rec-warszawa'' ''WARSZAWA'' 372000"
  have low: "lower ''Warszawa'' = ''warszawa''" "lower ''WARSZAWA'' = ''warszawa''"
    by (simp_all add: lower_def lower_char_def)
  have "low_group \<in> set sample_db \<and> ?t \<in> set (rg_tracks (snd low_group))
      \<and> te_id ?t = Some ''rec-warszawa'' \<and> ''rec-warszawa'' \<noteq> []
      \<and> te_title ?t = Some ''Warszawa'' \<and> ''Warszawa'' \<noteq> []"
    by (simp add: sample_db_defs)
  then have "\<exists>entries. map_of (process_metadata sample_db) (lower ''Warszawa'') = Some entries
             \<and> count_list entries (''rec-warszawa'', ''rg-low'') = 1"
    using C10_name_map_lists_each_pair_once [of sample_db]
    by (metis low_group_def snd_conv)
  then have a: "count_list (candidates (process_metadata sample_db) ''warszawa'')
       (''rec-warszawa'', ''rg-low'') = 1"
    by (auto simp: candidates_def low)
  have "live_group \<in> set sample_db \<and> ?u \<in> set (rg_tracks (snd live_group))
      \<and> te_id ?u = Some ''rec-warszawa'' \<and> ''rec-warszawa'' \<noteq> []
      \<and> te_title ?u = Some ''WARSZAWA'' \<and> ''WARSZAWA'' \<noteq> []"
    by (simp add: sample_db_defs)
  then have "\<exists>entries. map_of (process_metadata sample_db) (lower ''WARSZAWA'') = Some entries
             \<and> count_list entries (''rec-warszawa'', ''rg-live'') = 1"
    using C10_name_map_lists_each_pair_once [of sample_db]
    by (metis live_group_def snd_conv)
  then have b: "count_list (candidates (process_metadata sample_db) ''warszawa'')
       (''rec-warszawa'', ''rg-live'') = 1"
    by (auto simp: candidates_def low)
  have "(''warszawa'', [(''rec-warszawa'', ''rg-live''), (''rec-warszawa'', ''rg-low'')])
      \<in> set (process_metadata sample_db)"
    by (simp add: name_map_sample_db)
  with C10_name_map_lists_each_pair_once [of sample_db]
  have c: "distinct [(''rec-warszawa'', ''rg-live''), (''rec-warszawa'', ''rg-low'')]"
    by blast
  from a b c show ?thesis by (simp add: name_map_sample_db)
qed

section \<open>The Lookup Builder\<close>

subsection \<open>One track\<close>

lemma release_groups_index_track [simp]:
  "release_groups (index_track g t lk) = release_groups lk"
  by (auto simp: index_track_def Let_def split: option.splits)

lemma durations_index_track:
  "track_durations (index_track g t lk)
   = (case te_id t of
        None \<Rightarrow> track_durations lk
      | Some r \<Rightarrow>
          (case duration_sighting r t of
             [] \<Rightarrow> track_durations lk
           | d # ds \<Rightarrow> AList.update r d (track_durations lk)))"
  by (auto simp: index_track_def Let_def duration_sighting_def split: option.splits)

lemma recordings_index_track:
  "recordings (index_track g t lk)
   = (case te_id t of
        None \<Rightarrow> recordings lk
      | Some r \<Rightarrow>
          if r \<noteq> [] \<and> map_of (recordings lk) r = None
          then AList.update r g (recordings lk) else recordings lk)"
  by (auto simp: index_track_def Let_def split: option.splits)

lemma last_option_append:
  "last_option (xs @ ys) = (case last_option ys of None \<Rightarrow> last_option xs | Some y \<Rightarrow> Some y)"
  by (simp add: last_option_def)

lemma duration_sighting_cases:
  "duration_sighting r t = [] \<or> (\<exists>d. duration_sighting r t = [d] \<and> d \<noteq> 0)"
  by (auto simp: duration_sighting_def split: option.splits)

lemma duration_sighting_other:
  "te_id t = Some r' \<Longrightarrow> r \<noteq> r' \<Longrightarrow> duration_sighting r t = []"
  by (simp add: duration_sighting_def)

lemma duration_sighting_none: "te_id t = None \<Longrightarrow> duration_sighting r t = []"
  by (simp add: duration_sighting_def)

lemma map_of_durations_index_track:
  "map_of (track_durations (index_track g t lk)) r
   = (case last_option (duration_sighting r t) of
        None \<Rightarrow> map_of (track_durations lk) r
      | Some d \<Rightarrow> Some d)"
proof (cases "te_id t")
  case None
  then show ?thesis
    by (simp add: durations_index_track duration_sighting_none last_option_def)
next
  case (Some r')
  show ?thesis
  proof (cases "r = r'")
    case True
    with Some duration_sighting_cases [of r t] show ?thesis
      by (auto simp: durations_index_track last_option_def update_conv')
  next
    case False
    with Some have "duration_sighting r t = []" by (simp add: duration_sighting_other)
    with Some False show ?thesis
      by (auto simp: durations_index_track last_option_def update_conv' split: list.splits)
  qed
qed

lemma map_of_recordings_index_track:
  "map_of (recordings (index_track g t lk)) r
   = (case map_of (recordings lk) r of
        Some g' \<Rightarrow> Some g'
      | None \<Rightarrow> if r \<noteq> [] \<and> te_id t = Some r then Some g else None)"
  by (cases "te_id t") (auto simp: recordings_index_track update_conv' split: option.splits)

subsection \<open>The tracks of a group\<close>

lemma release_groups_fold_tracks [simp]:
  "release_groups (fold (index_track g) ts lk) = release_groups lk"
  by (induction ts arbitrary: lk) simp_all

lemma map_of_durations_fold_tracks:
  "map_of (track_durations (fold (index_track g) ts lk)) r
   = (case last_option (durations_in r ts) of
        None \<Rightarrow> map_of (track_durations lk) r
      | Some d \<Rightarrow> Some d)"
proof (induction ts arbitrary: lk)
  case Nil
  then show ?case by (simp add: durations_in_def last_option_def)
next
  case (Cons t ts)
  have "durations_in r (t # ts) = duration_sighting r t @ durations_in r ts"
    by (simp add: durations_in_def)
  then show ?case
    using Cons.IH [of "index_track g t lk"]
    by (simp add: map_of_durations_index_track last_option_append split: option.splits)
qed

lemma map_of_recordings_fold_tracks:
  "map_of (recordings (fold (index_track g) ts lk)) r
   = (case map_of (recordings lk) r of
        Some g' \<Rightarrow> Some g'
      | None \<Rightarrow> if r \<noteq> [] \<and> Some r \<in> set (map te_id ts) then Some g else None)"
proof (induction ts arbitrary: lk)
  case Nil
  then show ?case by (simp split: option.splits)
next
  case (Cons t ts)
  show ?case
    using Cons.IH [of "index_track g t lk"]
    by (auto simp: map_of_recordings_index_track split: option.splits)
qed

subsection \<open>One group\<close>

lemma release_groups_index_group:
  "release_groups (index_group item lk)
   = AList.update (fst item) (snd (summary_of item)) (release_groups lk)"
  by (cases item) (simp add: index_group_def summary_of_def)

lemma map_of_durations_index_group:
  "map_of (track_durations (index_group item lk)) r
   = (case last_option (durations_in r (rg_tracks (snd item))) of
        None \<Rightarrow> map_of (track_durations lk) r
      | Some d \<Rightarrow> Some d)"
  by (cases item) (simp add: index_group_def map_of_durations_fold_tracks split: option.splits)

lemma map_of_recordings_index_group:
  "map_of (recordings (index_group item lk)) r
   = (case map_of (recordings lk) r of
        Some g' \<Rightarrow> Some g'
      | None \<Rightarrow> if has_recording r item then Some (fst item) else None)"
  by (cases item)
     (simp add: index_group_def map_of_recordings_fold_tracks has_recording_def
        split: option.splits)

lemma distinct_durations_index_track:
  "distinct (map fst (track_durations lk)) \<Longrightarrow>
   distinct (map fst (track_durations (index_track g t lk)))"
  by (auto simp: durations_index_track distinct_update split: option.splits list.splits)

lemma distinct_durations_fold_tracks:
  "distinct (map fst (track_durations lk)) \<Longrightarrow>
   distinct (map fst (track_durations (fold (index_track g) ts lk)))"
  by (induction ts arbitrary: lk) (simp_all add: distinct_durations_index_track)

lemma distinct_durations_index_group:
  "distinct (map fst (track_durations lk)) \<Longrightarrow>
   distinct (map fst (track_durations (index_group item lk)))"
  by (cases item) (simp add: index_group_def distinct_durations_fold_tracks)

subsection \<open>All the groups\<close>

lemma update_new_key: "k \<notin> fst ` set al \<Longrightarrow> AList.update k v al = al @ [(k, v)]"
  by (induction al) auto

lemma release_groups_fold_groups:
  "distinct (map fst items) \<Longrightarrow> fst ` set items \<inter> fst ` set (release_groups lk) = {} \<Longrightarrow>
   release_groups (fold index_group items lk) = release_groups lk @ map summary_of items"
proof (induction items arbitrary: lk)
  case Nil
  then show ?case by simp
next
  case (Cons x items)
  from Cons.prems have new: "fst x \<notin> fst ` set (release_groups lk)" by auto
  then have rg: "release_groups (index_group x lk) = release_groups lk @ [summary_of x]"
    by (simp add: release_groups_index_group update_new_key summary_of_def)
  have "fst ` set items \<inter> fst ` set (release_groups (index_group x lk)) = {}"
    unfolding rg using Cons.prems by (auto simp: summary_of_def)
  with Cons.prems show ?case
    using Cons.IH [of "index_group x lk"] by (simp add: rg)
qed

lemma map_of_durations_fold_groups:
  "map_of (track_durations (fold index_group items lk)) r
   = (case last_option (durations_seen r items) of
        None \<Rightarrow> map_of (track_durations lk) r
      | Some d \<Rightarrow> Some d)"
proof (induction items arbitrary: lk)
  case Nil
  then show ?case by (simp add: durations_seen_def last_option_def)
next
  case (Cons x items)
  have "durations_seen r (x # items) = durations_in r (rg_tracks (snd x)) @ durations_seen r items"
    by (simp add: durations_seen_def)
  then show ?case
    using Cons.IH [of "index_group x lk"]
    by (simp add: map_of_durations_index_group last_option_append split: option.splits)
qed

lemma map_of_recordings_fold_groups:
  "map_of (recordings (fold index_group items lk)) r
   = (case map_of (recordings lk) r of
        Some g' \<Rightarrow> Some g'
      | None \<Rightarrow> map_option fst (find (has_recording r) items))"
proof (induction items arbitrary: lk)
  case Nil
  then show ?case by (simp split: option.splits)
next
  case (Cons x items)
  show ?case
    using Cons.IH [of "index_group x lk"]
    by (simp add: map_of_recordings_index_group split: option.splits)
qed

lemma distinct_durations_fold_groups:
  "distinct (map fst (track_durations lk)) \<Longrightarrow>
   distinct (map fst (track_durations (fold index_group items lk)))"
  by (induction items arbitrary: lk) (simp_all add: distinct_durations_index_group)

lemma release_groups_index_groups:
  "distinct (map fst items) \<Longrightarrow> release_groups (index_groups items) = map summary_of items"
  using release_groups_fold_groups [of items empty_lookup]
  by (simp add: index_groups_def empty_lookup_def)

lemma durations_index_groups:
  "map_of (track_durations (index_groups items)) r = last_option (durations_seen r items)"
  using map_of_durations_fold_groups [of items empty_lookup r]
  by (simp add: index_groups_def empty_lookup_def split: option.splits)

lemma recordings_index_groups:
  "map_of (recordings (index_groups items)) r = map_option fst (find (has_recording r) items)"
  using map_of_recordings_fold_groups [of items empty_lookup r]
  by (simp add: index_groups_def empty_lookup_def)

lemma distinct_durations_index_groups:
  "distinct (map fst (track_durations (index_groups items)))"
  using distinct_durations_fold_groups [of empty_lookup items]
  by (simp add: index_groups_def empty_lookup_def)

subsection \<open>The sort\<close>

lemma score_all_titled:
  "\<forall>(g, d) \<in> set db. rg_title d \<noteq> None \<Longrightarrow>
   score_all db = Inr (map (\<lambda>x. (score_of x, x)) db)"
proof (induction db)
  case Nil
  then show ?case by simp
next
  case (Cons x db)
  obtain g d where x: "x = (g, d)" by (cases x)
  from Cons.prems obtain t where t: "rg_title d = Some t" by (auto simp: x)
  then have "rg_score g d = Inr (score_of x)"
    by (simp add: rg_score_def score_of_def x)
  with Cons show ?case by (simp add: x)
qed

lemma score_all_untitled:
  "\<exists>(g, d) \<in> set db. rg_title d = None \<Longrightarrow> score_all db = Inl AttributeError"
proof (induction db)
  case Nil
  then show ?case by simp
next
  case (Cons x db)
  obtain g d where x: "x = (g, d)" by (cases x)
  show ?case
  proof (cases "rg_title d")
    case None
    then show ?thesis by (simp add: x rg_score_def)
  next
    case (Some t)
    with Cons.prems have "\<exists>(g, d) \<in> set db. rg_title d = None" by (auto simp: x)
    then have "score_all db = Inl AttributeError" by (rule Cons.IH)
    with Some show ?thesis by (simp add: x rg_score_def)
  qed
qed

lemma insort_key_paired_shape:
  "insort_key (\<lambda>p. - fst p) (h a, a) (map (\<lambda>x. (h x, x)) ys)
   = map (\<lambda>x. (h x, x)) (insort_key (\<lambda>x. - h x) a ys)"
  by (induction ys) simp_all

lemma sort_key_paired:
  "sort_key (\<lambda>p. - fst p) (map (\<lambda>x. (h x, x)) xs)
   = map (\<lambda>x. (h x, x)) (sort_key (\<lambda>x. - h x) xs)"
  for h :: "'a \<Rightarrow> int"
  by (induction xs) (simp_all add: insort_key_paired_shape)

lemma sorted_rgs_titled:
  assumes "\<forall>(g, d) \<in> set db. rg_title d \<noteq> None"
  shows "sorted_rgs db = Inr (sort_key (\<lambda>x. - score_of x) db)"
proof -
  have "map snd (sort_key (\<lambda>p. - fst p) (map (\<lambda>x. (score_of x, x)) db))
      = sort_key (\<lambda>x. - score_of x) db"
    by (simp add: sort_key_paired comp_def)
  with assms show ?thesis by (simp add: sorted_rgs_def score_all_titled)
qed

lemma sorted_rgs_untitled:
  "\<exists>(g, d) \<in> set db. rg_title d = None \<Longrightarrow> sorted_rgs db = Inl AttributeError"
  by (simp add: sorted_rgs_def score_all_untitled)

lemma descending_sort_key:
  "sorted_wrt (\<lambda>a b. h b \<le> h a) (sort_key (\<lambda>x. - h x) xs)" for h :: "'a \<Rightarrow> int"
proof -
  have "sorted (map (\<lambda>x. - h x) (sort_key (\<lambda>x. - h x) xs))" by (rule sorted_sort_key)
  then show ?thesis by (simp add: sorted_map)
qed

lemma first_found_ranks_highest:
  "sorted_wrt P xs \<Longrightarrow> find Q xs = Some y \<Longrightarrow> x \<in> set xs \<Longrightarrow> Q x \<Longrightarrow> x = y \<or> P y x"
  by (induction xs) (auto split: if_splits)

subsection \<open>Sightings\<close>

lemma duration_sighting_nonempty:
  "duration_sighting r t \<noteq> []
   \<longleftrightarrow> r \<noteq> [] \<and> te_id t = Some r \<and> truthy_int (te_duration_ms t)"
  by (cases "te_duration_ms t") (simp_all add: duration_sighting_def)

lemma duration_sighting_nonzero: "v \<in> set (duration_sighting r t) \<Longrightarrow> v \<noteq> 0"
  using duration_sighting_cases [of r t] by auto

lemma durations_seen_nonempty:
  "durations_seen r items \<noteq> []
   \<longleftrightarrow> r \<noteq> [] \<and> (\<exists>(g, d) \<in> set items. \<exists>t \<in> set (rg_tracks d).
                     te_id t = Some r \<and> truthy_int (te_duration_ms t))"
proof -
  have "durations_seen r items \<noteq> []
      \<longleftrightarrow> (\<exists>item \<in> set items. \<exists>t \<in> set (rg_tracks (snd item)). duration_sighting r t \<noteq> [])"
    by (simp add: durations_seen_def durations_in_def)
  also have "\<dots> \<longleftrightarrow> r \<noteq> [] \<and> (\<exists>(g, d) \<in> set items. \<exists>t \<in> set (rg_tracks d).
                     te_id t = Some r \<and> truthy_int (te_duration_ms t))"
    unfolding duration_sighting_nonempty by (auto simp: case_prod_beta)
  finally show ?thesis .
qed

lemma durations_seen_nonzero: "v \<in> set (durations_seen r items) \<Longrightarrow> v \<noteq> 0"
  by (auto simp: durations_seen_def durations_in_def dest: duration_sighting_nonzero)

lemma dom_durations_index_groups:
  "dom (map_of (track_durations (index_groups items)))
   = {r. r \<noteq> [] \<and> (\<exists>(g, d) \<in> set items. \<exists>t \<in> set (rg_tracks d).
                      te_id t = Some r \<and> truthy_int (te_duration_ms t))}"
proof -
  have "dom (map_of (track_durations (index_groups items)))
      = {r. durations_seen r items \<noteq> []}"
    by (auto simp: dom_def durations_index_groups last_option_def)
  then show ?thesis unfolding durations_seen_nonempty .
qed

lemma values_durations_index_groups:
  assumes "(r, v) \<in> set (track_durations (index_groups items))"
  shows "v \<noteq> 0"
proof -
  from assms have "map_of (track_durations (index_groups items)) r = Some v"
    using distinct_durations_index_groups [of items] by simp
  then have "last_option (durations_seen r items) = Some v"
    by (simp add: durations_index_groups)
  then have "v \<in> set (durations_seen r items)"
    by (auto simp: last_option_def split: if_splits)
  then show ?thesis by (rule durations_seen_nonzero)
qed

lemma build_lookup_titled:
  "\<forall>(g, d) \<in> set db. rg_title d \<noteq> None \<Longrightarrow>
   build_lookup db = Inr (index_groups (sort_key (\<lambda>x. - score_of x) db))"
  by (simp add: build_lookup_def sorted_rgs_titled)

lemma found_member: "find P xs = Some y \<Longrightarrow> y \<in> set xs \<and> P y"
  by (induction xs) (auto split: if_splits)

lemma sample_db_sorted: "sorted_rgs sample_db = Inr [low_group, live_group]"
  by (simp add: sorted_rgs_def sample_db_def live_group_def low_group_def entry_of_def
      score_defs)

lemma sample_db_well_formed:
  "distinct (map fst sample_db)" "\<forall>(g, d) \<in> set sample_db. rg_title d \<noteq> None"
  by (simp_all add: sample_db_defs)

text \<open>
  C5. For a database that is a dict (no release-group id twice) whose titles are all
  strings, \<open>build_lookup\<close> returns a lookup index. The release groups are sorted by
  descending canonical score, groups of equal score keeping the order of the database,
  and \<^verbatim>\<open>release_groups\<close> lists them in exactly that order. For every recording id,
  \<^verbatim>\<open>recordings\<close> gives the id of the first release group in that order that contains
  it; so for every release group that contains a recording, the group the recording
  resolves to contains it too and scores at least as high.
\<close>

theorem C5_release_groups_descending_first_claim:
  assumes keys: "distinct (map fst db)" and titled: "\<forall>(g, d) \<in> set db. rg_title d \<noteq> None"
  shows "\<exists>srt lk. sorted_rgs db = Inr srt \<and> build_lookup db = Inr lk
     \<and> mset srt = mset db
     \<and> (\<forall>x \<in> set db. rg_score (fst x) (snd x) = Inr (score_of x))
     \<and> sorted_wrt (\<lambda>a b. score_of b \<le> score_of a) srt
     \<and> (\<forall>k. filter (\<lambda>x. score_of x = k) srt = filter (\<lambda>x. score_of x = k) db)
     \<and> release_groups lk = map summary_of srt
     \<and> (\<forall>r. map_of (recordings lk) r = map_option fst (find (has_recording r) srt))
     \<and> (\<forall>r x. x \<in> set db \<and> has_recording r x \<longrightarrow>
           (\<exists>y \<in> set db. map_of (recordings lk) r = Some (fst y) \<and> has_recording r y
              \<and> score_of x \<le> score_of y))"
proof -
  let ?srt = "sort_key (\<lambda>x. - score_of x) db"
  let ?lk = "index_groups ?srt"
  have 1: "sorted_rgs db = Inr ?srt" using titled by (rule sorted_rgs_titled)
  have 2: "build_lookup db = Inr ?lk" using titled by (rule build_lookup_titled)
  have 3: "mset ?srt = mset db" by simp
  have 4: "\<forall>x \<in> set db. rg_score (fst x) (snd x) = Inr (score_of x)"
    using titled by (auto simp: rg_score_def score_of_def)
  have 5: "sorted_wrt (\<lambda>a b. score_of b \<le> score_of a) ?srt" by (rule descending_sort_key)
  have 6: "\<forall>k. filter (\<lambda>x. score_of x = k) ?srt = filter (\<lambda>x. score_of x = k) db"
  proof
    fix k
    have "filter (\<lambda>x. - score_of x = - k) ?srt = filter (\<lambda>x. - score_of x = - k) db"
      by (rule sort_key_stable)
    then show "filter (\<lambda>x. score_of x = k) ?srt = filter (\<lambda>x. score_of x = k) db" by simp
  qed
  have "distinct (map fst ?srt)"
    using keys 3 by (metis distinct_map distinct_sort set_sort)
  then have 7: "release_groups ?lk = map summary_of ?srt" by (rule release_groups_index_groups)
  have 8: "\<forall>r. map_of (recordings ?lk) r = map_option fst (find (has_recording r) ?srt)"
    by (simp add: recordings_index_groups)
  have 9: "\<forall>r x. x \<in> set db \<and> has_recording r x \<longrightarrow>
           (\<exists>y \<in> set db. map_of (recordings ?lk) r = Some (fst y) \<and> has_recording r y
              \<and> score_of x \<le> score_of y)"
  proof (intro allI impI)
    fix r x assume x: "x \<in> set db \<and> has_recording r x"
    then have "x \<in> set ?srt" by simp
    with x have "\<not> (\<forall>z \<in> set ?srt. \<not> has_recording r z)" by blast
    then have "find (has_recording r) ?srt \<noteq> None"
      unfolding find_None_iff by blast
    then obtain y where y: "find (has_recording r) ?srt = Some y" by blast
    then have "y \<in> set ?srt" "has_recording r y"
      using found_member [of "has_recording r" ?srt y] by simp_all
    moreover from first_found_ranks_highest [OF 5 y \<open>x \<in> set ?srt\<close>] x
    have "score_of x \<le> score_of y" by auto
    moreover have "map_of (recordings ?lk) r = Some (fst y)"
      using y by (simp add: recordings_index_groups)
    ultimately show "\<exists>y \<in> set db. map_of (recordings ?lk) r = Some (fst y)
        \<and> has_recording r y \<and> score_of x \<le> score_of y"
      by auto
  qed
  from 1 2 3 4 5 6 7 8 9 show ?thesis by blast
qed

theorem C5_sample_db_witness:
  "\<exists>lk. build_lookup sample_db = Inr lk
     \<and> map fst (release_groups lk) = [''rg-low'', ''rg-live'']
     \<and> map_of (recordings lk) ''rec-warszawa'' = Some ''rg-low''
     \<and> map_of (recordings lk) ''rec-intro'' = Some ''rg-live''"
proof -
  from C5_release_groups_descending_first_claim [OF sample_db_well_formed] obtain srt lk where
    srt: "sorted_rgs sample_db = Inr srt" and lk: "build_lookup sample_db = Inr lk"
    and groups: "release_groups lk = map summary_of srt"
    and recs: "\<forall>r. map_of (recordings lk) r = map_option fst (find (has_recording r) srt)"
    by (elim exE conjE)
  from srt have srt_eq: "srt = [low_group, live_group]" by (simp add: sample_db_sorted)
  have "map fst (release_groups lk) = [''rg-low'', ''rg-live'']"
    unfolding groups srt_eq by (simp add: summary_of_def low_group_def live_group_def)
  moreover have "map_of (recordings lk) ''rec-warszawa'' = Some ''rg-low''"
    using recs unfolding srt_eq
    by (simp add: has_recording_def low_group_def live_group_def entry_of_def)
  moreover have "map_of (recordings lk) ''rec-intro'' = Some ''rg-live''"
    using recs unfolding srt_eq
    by (simp add: has_recording_def low_group_def live_group_def entry_of_def)
  ultimately show ?thesis using lk by (intro exI [of _ lk]) simp
qed

text \<open>
  C9 (as the code has it). For a database whose titles are all strings, the
  \<^verbatim>\<open>track_durations\<close> of the lookup index has an entry for exactly the non-empty
  recording ids that some track of some release group carries with a duration that is
  set and not zero, and no stored value is zero. The set of its keys is the same for
  every order in which the release groups are iterated. The value stored for a
  recording id is the duration of its last such sighting in the order of iteration, the
  descending-score order: a later sighting overwrites an earlier one.
\<close>

theorem C9_track_durations_last_sighting:
  "((\<forall>(g, d) \<in> set db. rg_title d \<noteq> None) \<longrightarrow>
      (\<exists>srt lk. sorted_rgs db = Inr srt \<and> build_lookup db = Inr lk
         \<and> (\<forall>r. map_of (track_durations lk) r = last_option (durations_seen r srt))
         \<and> dom (map_of (track_durations lk))
           = {r. r \<noteq> [] \<and> (\<exists>(g, d) \<in> set db. \<exists>t \<in> set (rg_tracks d).
                              te_id t = Some r \<and> truthy_int (te_duration_ms t))}
         \<and> (\<forall>(r, v) \<in> set (track_durations lk). v \<noteq> 0)))
   \<and> (\<forall>items items'. mset items' = mset items \<longrightarrow>
         dom (map_of (track_durations (index_groups items')))
         = dom (map_of (track_durations (index_groups items))))
   \<and> (\<forall>items r. map_of (track_durations (index_groups items)) r
         = last_option (durations_seen r items))"
proof (intro conjI impI allI)
  assume titled: "\<forall>(g, d) \<in> set db. rg_title d \<noteq> None"
  let ?srt = "sort_key (\<lambda>x. - score_of x) db"
  let ?lk = "index_groups ?srt"
  have "sorted_rgs db = Inr ?srt" using titled by (rule sorted_rgs_titled)
  moreover have "build_lookup db = Inr ?lk" using titled by (rule build_lookup_titled)
  moreover have "\<forall>r. map_of (track_durations ?lk) r = last_option (durations_seen r ?srt)"
    by (simp add: durations_index_groups)
  moreover have "dom (map_of (track_durations ?lk))
           = {r. r \<noteq> [] \<and> (\<exists>(g, d) \<in> set db. \<exists>t \<in> set (rg_tracks d).
                              te_id t = Some r \<and> truthy_int (te_duration_ms t))}"
    by (simp add: dom_durations_index_groups)
  moreover have "\<forall>(r, v) \<in> set (track_durations ?lk). v \<noteq> 0"
    using values_durations_index_groups [of _ _ ?srt] by blast
  ultimately show "\<exists>srt lk. sorted_rgs db = Inr srt \<and> build_lookup db = Inr lk
         \<and> (\<forall>r. map_of (track_durations lk) r = last_option (durations_seen r srt))
         \<and> dom (map_of (track_durations lk))
           = {r. r \<noteq> [] \<and> (\<exists>(g, d) \<in> set db. \<exists>t \<in> set (rg_tracks d).
                              te_id t = Some r \<and> truthy_int (te_duration_ms t))}
         \<and> (\<forall>(r, v) \<in> set (track_durations lk). v \<noteq> 0)"
    by blast
next
  fix items items' :: db
  assume "mset items' = mset items"
  then have "set items' = set items" by (rule mset_eq_setD)
  then show "dom (map_of (track_durations (index_groups items')))
         = dom (map_of (track_durations (index_groups items)))"
    by (simp add: dom_durations_index_groups)
next
  fix items r
  show "map_of (track_durations (index_groups items)) r = last_option (durations_seen r items)"
    by (rule durations_index_groups)
qed

lemmas durations_defs =
  durations_seen_def durations_in_def duration_sighting_def last_option_def

theorem C9_sample_db_witness:
  "(\<exists>lk. build_lookup sample_db = Inr lk
     \<and> map_of (track_durations lk) ''rec-warszawa'' = Some 372000
     \<and> map_of (track_durations lk) ''rec-sound'' = Some 183000
     \<and> map_of (track_durations lk) ''rec-intro'' = None)
   \<and> dom (map_of (track_durations (index_groups [live_group, low_group])))
     = dom (map_of (track_durations (index_groups [low_group, live_group])))"
proof -
  have "mset [live_group, low_group] = mset [low_group, live_group]" by simp
  with C9_track_durations_last_sighting [of sample_db]
  have same_keys: "dom (map_of (track_durations (index_groups [live_group, low_group])))
      = dom (map_of (track_durations (index_groups [low_group, live_group])))"
    by blast
  from C9_track_durations_last_sighting [of sample_db, THEN conjunct1, THEN mp, OF sample_db_well_formed(2)]
  obtain srt lk where
    srt: "sorted_rgs sample_db = Inr srt" and lk: "build_lookup sample_db = Inr lk"
    and durs: "\<forall>r. map_of (track_durations lk) r = last_option (durations_seen r srt)"
    by (elim exE conjE)
  from srt have srt_eq: "srt = [low_group, live_group]" by (simp add: sample_db_sorted)
  have "map_of (track_durations lk) ''rec-warszawa'' = Some 372000"
    using durs unfolding srt_eq
    by (simp add: durations_defs low_group_def live_group_def entry_of_def)
  moreover have "map_of (track_durations lk) ''rec-sound'' = Some 183000"
    using durs unfolding srt_eq
    by (simp add: durations_defs low_group_def live_group_def entry_of_def)
  moreover have "map_of (track_durations lk) ''rec-intro'' = None"
    using durs unfolding srt_eq
    by (simp add: durations_defs low_group_def live_group_def entry_of_def)
  ultimately have "\<exists>lk. build_lookup sample_db = Inr lk
     \<and> map_of (track_durations lk) ''rec-warszawa'' = Some 372000
     \<and> map_of (track_durations lk) ''rec-sound'' = Some 183000
     \<and> map_of (track_durations lk) ''rec-intro'' = None"
    using lk by (intro exI [of _ lk]) simp
  with same_keys show ?thesis by (rule conjI [rotated])
qed

text \<open>
  C9 as the specification states it fails: the map depends on the order in which the
  release groups are iterated. The two sample groups carry the recording
  \<open>rec-warszawa\<close> with different durations, and each order of iteration stores the
  duration of the group that comes last.
\<close>

theorem C9_durations_depend_on_order:
  "track_durations (index_groups [low_group, live_group])
     = [(''rec-warszawa'', 372000), (''rec-sound'', 183000)]
   \<and> track_durations (index_groups [live_group, low_group])
     = [(''rec-warszawa'', 370000), (''rec-sound'', 183000)]"
  by (simp add: index_groups_def index_group_def index_track_def empty_lookup_def
      low_group_def live_group_def entry_of_def titled_def Let_def)

end
